theory Spec2Isabelle
  imports Complex_Main "HOL-Library.Multiset"
begin

section \<open>Cards\<close>

text \<open>
  \<^verbatim>\<open>poker-engine.js\<close>: a card is an object \<^verbatim>\<open>{ rank, suit }\<close> whose rank is one of the
  thirteen symbols of \<^verbatim>\<open>this.ranks\<close> and whose suit is one of the four of \<^verbatim>\<open>this.suits\<close>.
\<close>

datatype suit = Spades | Hearts | Diamonds | Clubs

datatype rank_symbol = R2 | R3 | R4 | R5 | R6 | R7 | R8 | R9 | RT | RJ | RQ | RK | RA

datatype card = Card (card_rank: rank_symbol) (card_suit: suit)

text \<open>The table \<^verbatim>\<open>this.rankValues\<close>.\<close>

fun rankValues :: "rank_symbol \<Rightarrow> int" where
  "rankValues R2 = 2"
| "rankValues R3 = 3"
| "rankValues R4 = 4"
| "rankValues R5 = 5"
| "rankValues R6 = 6"
| "rankValues R7 = 7"
| "rankValues R8 = 8"
| "rankValues R9 = 9"
| "rankValues RT = 10"
| "rankValues RJ = 11"
| "rankValues RQ = 12"
| "rankValues RK = 13"
| "rankValues RA = 14"

section \<open>The hand evaluator\<close>

text \<open>
  The object returned by \<^verbatim>\<open>evaluateHand\<close> and \<^verbatim>\<open>evaluateFiveCards\<close>. The early return of
  \<^verbatim>\<open>evaluateHand\<close> has no \<^verbatim>\<open>kickers\<close> property, hence the option. All numbers of the
  evaluator are integers far below \<open>2^53\<close> in absolute value, so \<open>int\<close> is exact for them.
\<close>

record hand_value =
  rank :: nat
  "value" :: int
  description :: string
  kickers :: "int list option"

text \<open>\<^verbatim>\<open>xs.sort((a, b) => b - a)\<close> on numbers: descending order.\<close>

definition sortDesc :: "'a::linorder list \<Rightarrow> 'a list" where
  "sortDesc xs = rev (sort xs)"

text \<open>
  \<^verbatim>\<open>ranks.forEach(r => rankCounts[r] = (rankCounts[r] || 0) + 1)\<close>. The keys of
  \<^verbatim>\<open>rankCounts\<close> are integers, which a JavaScript object enumerates in ascending order;
  the association list is kept in that order.
\<close>

fun bump :: "int \<Rightarrow> (int \<times> nat) list \<Rightarrow> (int \<times> nat) list" where
  "bump r [] = [(r, 1)]"
| "bump r ((k, c) # m) =
     (if r = k then (k, c + 1) # m
      else if r < k then (r, 1) # (k, c) # m
      else (k, c) # bump r m)"

definition rankCountsOf :: "int list \<Rightarrow> (int \<times> nat) list" where
  "rankCountsOf ranks = foldl (\<lambda>m r. bump r m) [] ranks"

text \<open>
  \<^verbatim>\<open>uniqueRanks.find(p)\<close> and \<^verbatim>\<open>xs[i]\<close>. Where nothing matches (or the index is out of
  range) JavaScript yields \<^verbatim>\<open>undefined\<close> and the arithmetic built on it yields NaN. On
  five cards every call below finds its element (the rank counts of five cards are one of
  4+1, 3+2, 3+1+1, 2+2+1, 2+1+1+1 in the branches that search, lemma \<open>five_card_counts\<close>),
  so that case is never reached from \<^verbatim>\<open>evaluateHand\<close>; the model returns 0 there.
\<close>

definition findNum :: "(int \<Rightarrow> bool) \<Rightarrow> int list \<Rightarrow> int" where
  "findNum p xs = (case List.find p xs of Some r \<Rightarrow> r | None \<Rightarrow> 0)"

definition nthNum :: "'a::zero list \<Rightarrow> nat \<Rightarrow> 'a" where
  "nthNum xs i = (if i < length xs then xs ! i else 0)"

text \<open>
  \<^verbatim>\<open>xs.reduce((acc, r, i) => acc + r * Math.pow(100, e - i), 0)\<close>, with the index
  \<open>i\<close> and the accumulator \<open>a\<close> threaded through. The exponent would be negative only
  on a list of more than \<open>e + 1\<close> elements, which five cards never give.
\<close>

fun reducePow :: "nat \<Rightarrow> nat \<Rightarrow> int \<Rightarrow> int list \<Rightarrow> int" where
  "reducePow e i a [] = a"
| "reducePow e i a (r # rs) = reducePow e (i + 1) (a + r * 100 ^ (e - i)) rs"

text \<open>\<^verbatim>\<open>Math.max(...xs)\<close> on a non-empty list of rank values (all of them positive).\<close>

definition mathMax :: "int list \<Rightarrow> int" where
  "mathMax xs = foldr max xs 0"

text \<open>
  \<^verbatim>\<open>checkStraight\<close>: the loop walks the list; at the first pair of neighbours that do not
  differ by exactly one it returns the result of the wheel test on the whole list.
\<close>

definition isWheel :: "int list \<Rightarrow> bool" where
  "isWheel s = (5 \<le> length s \<and> s ! 0 = 14 \<and> s ! 1 = 5 \<and> s ! 2 = 4 \<and> s ! 3 = 3 \<and> s ! 4 = 2)"

fun checkStraightLoop :: "int list \<Rightarrow> int list \<Rightarrow> bool" where
  "checkStraightLoop whole (a # b # rest) =
     (if a - b \<noteq> 1 then isWheel whole else checkStraightLoop whole (b # rest))"
| "checkStraightLoop whole _ = True"

definition checkStraight :: "int list \<Rightarrow> bool" where
  "checkStraight sortedRanks = checkStraightLoop sortedRanks sortedRanks"

definition evaluateFiveCards :: "card list \<Rightarrow> hand_value" where
  "evaluateFiveCards cards =
     (let ranks = map (\<lambda>c. rankValues (card_rank c)) cards;
          suits = map card_suit cards;
          rankCounts = rankCountsOf ranks;
          counts = sortDesc (map snd rankCounts);
          uniqueRanks = sortDesc (map fst rankCounts);
          cnt = (\<lambda>n r. map_of rankCounts r = Some n);
          isFlush = list_all (\<lambda>s. s = hd suits) suits;
          sortedRanks = sortDesc ranks;
          isStraight = checkStraight sortedRanks
      in
        if isFlush \<and> isStraight then
          \<lparr>rank = 8, value = mathMax sortedRanks,
           description = (if nthNum sortedRanks 0 = 14 then ''Royal Flush'' else ''Straight Flush''),
           kickers = Some sortedRanks\<rparr>
        else if nthNum counts 0 = 4 then
          (let quad = findNum (cnt 4) uniqueRanks;
               kicker = findNum (cnt 1) uniqueRanks
           in \<lparr>rank = 7, value = quad * 1000 + kicker,
               description = ''Four of a Kind'', kickers = Some [quad, kicker]\<rparr>)
        else if nthNum counts 0 = 3 \<and> nthNum counts 1 = 2 then
          (let trips = findNum (cnt 3) uniqueRanks;
               pair = findNum (cnt 2) uniqueRanks
           in \<lparr>rank = 6, value = trips * 1000 + pair,
               description = ''Full House'', kickers = Some [trips, pair]\<rparr>)
        else if isFlush then
          \<lparr>rank = 5, value = reducePow 4 0 0 sortedRanks,
           description = ''Flush'', kickers = Some sortedRanks\<rparr>
        else if isStraight then
          \<lparr>rank = 4, value = mathMax sortedRanks,
           description = ''Straight'', kickers = Some sortedRanks\<rparr>
        else if nthNum counts 0 = 3 then
          (let trips = findNum (cnt 3) uniqueRanks;
               ks = filter (cnt 1) uniqueRanks
           in \<lparr>rank = 3, value = trips * 10000 + nthNum ks 0 * 100 + nthNum ks 1,
               description = ''Three of a Kind'', kickers = Some (trips # ks)\<rparr>)
        else if nthNum counts 0 = 2 \<and> nthNum counts 1 = 2 then
          (let pairs = sortDesc (filter (cnt 2) uniqueRanks);
               kicker = findNum (cnt 1) uniqueRanks
           in \<lparr>rank = 2, value = nthNum pairs 0 * 10000 + nthNum pairs 1 * 100 + kicker,
               description = ''Two Pair'', kickers = Some (pairs @ [kicker])\<rparr>)
        else if nthNum counts 0 = 2 then
          (let pair = findNum (cnt 2) uniqueRanks;
               ks = filter (cnt 1) uniqueRanks
           in \<lparr>rank = 1, value = pair * 1000000 + reducePow 2 0 0 ks,
               description = ''One Pair'', kickers = Some (pair # ks)\<rparr>)
        else
          \<lparr>rank = 0, value = reducePow 4 0 0 sortedRanks,
           description = ''High Card'', kickers = Some sortedRanks\<rparr>)"

text \<open>
  \<^verbatim>\<open>getCombinations\<close>. Its only caller passes 5 for \<^verbatim>\<open>size\<close> (here \<open>sz\<close>). For size 0 on a
  non-empty array the source calls itself with sizes \<open>-1, -2, ...\<close> without end; the
  model is not meant for that input and has an empty result there.
\<close>

function getCombinations :: "'a list \<Rightarrow> nat \<Rightarrow> 'a list list" where
  "getCombinations arr sz =
     (if sz > length arr then []
      else if sz = length arr then [arr]
      else if sz = 1 then map (\<lambda>item. [item]) arr
      else if sz = 0 then []
      else concat (map (\<lambda>i. map (\<lambda>tail. (arr ! i) # tail)
                                 (getCombinations (drop (i + 1) arr) (sz - 1)))
                       [0 ..< length arr - sz + 1]))"
  by pat_completeness auto
termination
  by (relation "measure (\<lambda>(arr, sz). length arr)") auto

declare getCombinations.simps [simp del]

text \<open>The test of the loop of \<^verbatim>\<open>evaluateHand\<close>: does \<open>e\<close> replace the best hand \<open>b\<close>?\<close>

definition beats :: "hand_value \<Rightarrow> hand_value \<Rightarrow> bool" where
  "beats e b = (rank e > rank b \<or> (rank e = rank b \<and> value e > value b))"

definition evaluateHand :: "card list \<Rightarrow> hand_value" where
  "evaluateHand cards =
     (if length cards < 5 then
        \<lparr>rank = 0, value = 0, description = ''High Card'', kickers = None\<rparr>
      else
        foldl (\<lambda>bestHand combo.
                 let evaluation = evaluateFiveCards combo
                 in if beats evaluation bestHand then evaluation else bestHand)
              \<lparr>rank = 0, value = 0, description = ''High Card'', kickers = Some []\<rparr>
              (getCombinations cards 5))"

section \<open>Strategies, normalization and the action grader\<close>

text \<open>
  \<^verbatim>\<open>gto-solver-advanced.js\<close>. A strategy is an object from action labels (\<^verbatim>\<open>fold\<close>,
  \<^verbatim>\<open>call\<close>, \<^verbatim>\<open>raise_0.67\<close>, ...) to weights. The labels are not integer-like, so the
  object enumerates them in insertion order: an association list, with distinct keys for
  a real object. JavaScript numbers are modelled as reals, that is with exact arithmetic:
  a decimal literal stands for its decimal value, and rounding and the infinities are
  outside the model; NaN arises in the grader only, from a label that names an inherited
  member, and is modelled there.
\<close>

type_synonym strategy = "(string \<times> real) list"

datatype js_error = TypeError

text \<open>\<^verbatim>\<open>normalizeStrategy\<close> of \<^verbatim>\<open>gto-solver-advanced.js\<close>.\<close>

definition normalizeStrategy :: "strategy \<Rightarrow> strategy" where
  "normalizeStrategy strategy =
     (let total = foldl (+) 0 (map snd strategy)
      in if total = 0 \<or> total = 1 then strategy
         else map (\<lambda>(action, w). (action, w / total)) strategy)"

text \<open>\<^verbatim>\<open>normalizeStrategy\<close> of \<^verbatim>\<open>gto-solver.js\<close>, which tests the zero total only.\<close>

definition normalizeStrategyBasic :: "strategy \<Rightarrow> strategy" where
  "normalizeStrategyBasic strategy =
     (let total = foldl (+) 0 (map snd strategy)
      in if total = 0 then strategy
         else map (\<lambda>(action, w). (action, w / total)) strategy)"

text \<open>
  The strategy tables are plain objects (object literals and \<^verbatim>\<open>{}\<close>), so a property read
  \<^verbatim>\<open>gtoStrategy[playerAction]\<close> finds the table's own entry or else the member of that name
  inherited from \<^verbatim>\<open>Object.prototype\<close>; only for a name that is neither it yields
  \<^verbatim>\<open>undefined\<close>. These are the names of the inherited members (the source adds none).
\<close>

definition objectPrototypeMembers :: "string list" where
  "objectPrototypeMembers =
     [''constructor'', ''hasOwnProperty'', ''isPrototypeOf'', ''propertyIsEnumerable'',
      ''toLocaleString'', ''toString'', ''valueOf'', ''__proto__'', ''__defineGetter__'',
      ''__defineSetter__'', ''__lookupGetter__'', ''__lookupSetter__'']"

text \<open>
  What \<^verbatim>\<open>gtoStrategy[playerAction] || 0\<close> can be: a number, or an inherited member (a
  function, for \<^verbatim>\<open>__proto__\<close> the prototype object), which is truthy and so survives the
  \<^verbatim>\<open>|| 0\<close>. In arithmetic and in comparisons such a member converts to NaN.
\<close>

datatype js_value = Num real | Inherited

datatype js_number = Finite real | NaN

text \<open>
  \<^verbatim>\<open>gtoStrategy[playerAction] || 0\<close>: a zero weight and a label that is found nowhere both
  give 0.
\<close>

definition lookupFreq :: "strategy \<Rightarrow> string \<Rightarrow> js_value" where
  "lookupFreq gtoStrategy playerAction =
     (case map_of gtoStrategy playerAction of
        Some w \<Rightarrow> (if w = 0 then Num 0 else Num w)
      | None \<Rightarrow> (if playerAction \<in> set objectPrototypeMembers then Inherited else Num 0))"

text \<open>
  \<^verbatim>\<open>playerFreq >= x\<close>, false when \<^verbatim>\<open>playerFreq\<close> converts to NaN; the difference
  \<^verbatim>\<open>optimalFreq - playerFreq\<close>; and a numeric operation applied to a number that may be
  NaN (\<^verbatim>\<open>Math.max\<close>, \<^verbatim>\<open>Math.min\<close>, \<^verbatim>\<open>+\<close> and \<^verbatim>\<open>*\<close> all return NaN on NaN).
\<close>

fun geq :: "js_value \<Rightarrow> real \<Rightarrow> bool" where
  "geq (Num p) x = (p \<ge> x)"
| "geq Inherited x = False"

fun difference :: "real \<Rightarrow> js_value \<Rightarrow> js_number" where
  "difference w (Num p) = Finite (w - p)"
| "difference w Inherited = NaN"

fun numeric :: "(real \<Rightarrow> real) \<Rightarrow> js_number \<Rightarrow> js_number" where
  "numeric f (Finite x) = Finite (f x)"
| "numeric f NaN = NaN"

text \<open>
  The object returned by \<^verbatim>\<open>evaluateAction\<close>. The grader of \<^verbatim>\<open>gto-solver.js\<close> returns no
  \<^verbatim>\<open>top3Actions\<close> property, hence the option.
\<close>

record grading =
  category :: string
  evLoss :: js_number
  playerFrequency :: js_value
  optimalAction :: string
  optimalFrequency :: real
  allFrequencies :: strategy
  top3Actions :: "strategy option"

text \<open>
  \<^verbatim>\<open>Object.entries(gtoStrategy).sort((a, b) => b[1] - a[1])\<close>: a stable sort by descending
  weight, so among equal weights the first enumerated entry stays first.
\<close>

definition sortedActionsOf :: "strategy \<Rightarrow> strategy" where
  "sortedActionsOf gtoStrategy = sort_key (\<lambda>e. - snd e) gtoStrategy"

text \<open>The ladder of \<^verbatim>\<open>evaluateAction\<close>: the category and the loss before the cap.\<close>

definition gradeBand :: "js_value \<Rightarrow> real \<Rightarrow> string \<times> js_number" where
  "gradeBand playerFreq optimalFreq =
     (if geq playerFreq (optimalFreq - 0.03) \<or> geq playerFreq 0.25 then
        (''best'', numeric (max 0) (numeric (\<lambda>d. d * 0.05) (difference optimalFreq playerFreq)))
      else if geq playerFreq 0.15 then
        (''correct'', numeric (\<lambda>d. d * 0.15) (difference optimalFreq playerFreq))
      else if geq playerFreq 0.08 then
        (''inaccuracy'', numeric (\<lambda>d. 0.3 + d * 0.2) (difference optimalFreq playerFreq))
      else if geq playerFreq 0.03 then
        (''wrong'', numeric (\<lambda>d. 0.6 + d * 0.3) (difference optimalFreq playerFreq))
      else
        (''blunder'', numeric (\<lambda>d. 1.2 + d * 0.4) (difference optimalFreq playerFreq)))"

text \<open>
  \<^verbatim>\<open>evaluateAction\<close> of \<^verbatim>\<open>gto-solver-advanced.js\<close> (its third parameter \<^verbatim>\<open>metrics\<close> is
  not used by the body). On an empty strategy \<^verbatim>\<open>sortedActions[0]\<close> is \<^verbatim>\<open>undefined\<close> and
  reading its element 0 throws a TypeError.
\<close>

definition evaluateAction :: "string \<Rightarrow> strategy \<Rightarrow> js_error + grading" where
  "evaluateAction playerAction gtoStrategy =
     (let playerFreq = lookupFreq gtoStrategy playerAction;
          sortedActions = sortedActionsOf gtoStrategy
      in case sortedActions of
           [] \<Rightarrow> Inl TypeError
         | (optAction, optimalFreq) # _ \<Rightarrow>
             (let (cat, loss) = gradeBand playerFreq optimalFreq
              in Inr \<lparr>category = cat, evLoss = numeric (\<lambda>l. min l 2.5) loss,
                      playerFrequency = playerFreq, optimalAction = optAction,
                      optimalFrequency = optimalFreq, allFrequencies = gtoStrategy,
                      top3Actions = Some (take 3 sortedActions)\<rparr>))"




section \<open>The board texture analyzer\<close>

text \<open>
  \<^verbatim>\<open>suits.forEach(s => suitCounts[s] = (suitCounts[s] || 0) + 1)\<close>: the keys are suit
  symbols, enumerated in insertion order.
\<close>

fun bumpSuit :: "suit \<Rightarrow> (suit \<times> nat) list \<Rightarrow> (suit \<times> nat) list" where
  "bumpSuit s [] = [(s, 1)]"
| "bumpSuit s ((k, c) # m) = (if s = k then (k, c + 1) # m else (k, c) # bumpSuit s m)"

definition suitCountsOf :: "suit list \<Rightarrow> (suit \<times> nat) list" where
  "suitCountsOf suits = foldl (\<lambda>m s. bumpSuit s m) [] suits"

text \<open>The loop that pushes \<^verbatim>\<open>sortedRanks[i] - sortedRanks[i + 1]\<close> onto \<^verbatim>\<open>gaps\<close>.\<close>

fun gapsOf :: "int list \<Rightarrow> int list" where
  "gapsOf (a # b # rest) = (a - b) # gapsOf (b # rest)"
| "gapsOf _ = []"

text \<open>
  The object returned for a board of at least three cards. For fewer cards the function
  returns \<^verbatim>\<open>{ type: 'preflop' }\<close>, with no other property: the constructor \<open>Preflop\<close>.
\<close>

record texture =
  type :: string
  wetness :: real
  ranks :: "int list"
  paired :: bool
  trips :: bool
  flushDraw :: bool
  flushPossible :: bool
  monochrome :: bool
  twoTone :: bool
  rainbow :: bool
  connected :: bool
  doubleConnected :: bool
  straightPossible :: bool
  highCards :: nat
  broadway :: bool
  lowBoard :: bool
  hasAce :: bool
  maxGap :: int
  minGap :: int
  uniqueRanks :: nat

datatype texture_result = Preflop | Texture texture

text \<open>
  The block of conditional updates \<^verbatim>\<open>if (c) wetness += d\<close> (or \<^verbatim>\<open>-= d\<close>), in the order
  of the source, starting from the base 0.4.
\<close>

definition addIf :: "bool \<Rightarrow> real \<Rightarrow> real \<Rightarrow> real" where
  "addIf c d w = (if c then w + d else w)"

definition wetnessSum ::
  "bool \<Rightarrow> bool \<Rightarrow> bool \<Rightarrow> bool \<Rightarrow> bool \<Rightarrow> nat \<Rightarrow> bool \<Rightarrow> bool \<Rightarrow> bool \<Rightarrow> int \<Rightarrow> real" where
  "wetnessSum fd conn dconn isPaired isTrips hc bw lb rb mx =
     (let w0 = 0.4;
          w1 = addIf fd 0.20 w0;
          w2 = addIf conn 0.18 w1;
          w3 = addIf dconn 0.12 w2;
          w4 = addIf isPaired (- 0.10) w3;
          w5 = addIf isTrips (- 0.15) w4;
          w6 = addIf (hc \<ge> 2) 0.10 w5;
          w7 = addIf bw 0.12 w6;
          w8 = addIf (lb \<and> \<not> conn) (- 0.20) w7;
          w9 = addIf (rb \<and> mx > 4) (- 0.18) w8
      in w9)"

text \<open>
  The classification by the thresholds, followed by the two special cases
  \<^verbatim>\<open>if (trips) type = 'paired'\<close> and \<^verbatim>\<open>if (paired && !trips) type = 'paired'\<close>.
\<close>

definition classifyBoard :: "real \<Rightarrow> bool \<Rightarrow> bool \<Rightarrow> string" where
  "classifyBoard w isPaired isTrips =
     (let ty0 = (if w \<ge> 0.7 then ''wet'' else if w \<le> 0.35 then ''dry'' else ''medium'');
          ty1 = (if isTrips then ''paired'' else ty0);
          ty2 = (if isPaired \<and> \<not> isTrips then ''paired'' else ty1)
      in ty2)"

text \<open>
  \<^verbatim>\<open>analyzeAdvancedBoardTexture\<close>. \<^verbatim>\<open>Math.max(...xs)\<close> and \<^verbatim>\<open>Math.min(...xs)\<close> are taken
  over non-empty lists here, since the board has at least three cards.
\<close>

definition analyzeAdvancedBoardTexture :: "card list \<Rightarrow> texture_result" where
  "analyzeAdvancedBoardTexture board =
     (if length board < 3 then Preflop
      else
        let rs = map (\<lambda>c. rankValues (card_rank c)) board;
            suits = map card_suit board;
            sortedRanks = sortDesc rs;
            rankCounts = rankCountsOf rs;
            uniq = length (map fst rankCounts);
            isPaired = (uniq < length board);
            isTrips = list_ex (\<lambda>c. c \<ge> 3) (map snd rankCounts);
            suitCounts = suitCountsOf suits;
            maxSuitCount = Max (set (map snd suitCounts));
            fd = (maxSuitCount \<ge> 3);
            gaps = gapsOf sortedRanks;
            mx = Max (set gaps);
            mn = Min (set gaps);
            conn = (mx \<le> 2);
            dconn = list_all (\<lambda>g. g \<le> 2) gaps;
            hc = length (filter (\<lambda>r. r \<ge> 10) rs);
            bw = list_all (\<lambda>r. r \<ge> 10) rs;
            lb = list_all (\<lambda>r. r \<le> 9) rs;
            rb = (length (map fst suitCounts) = 3);
            w = max 0 (min 1 (wetnessSum fd conn dconn isPaired isTrips hc bw lb rb mx))
        in Texture \<lparr>type = classifyBoard w isPaired isTrips, wetness = w,
             ranks = sortedRanks, paired = isPaired, trips = isTrips, flushDraw = fd,
             flushPossible = (maxSuitCount \<ge> 3), monochrome = (maxSuitCount = 3),
             twoTone = (length (map fst suitCounts) = 2), rainbow = rb, connected = conn,
             doubleConnected = dconn, straightPossible = (mx \<le> 4), highCards = hc,
             broadway = bw, lowBoard = lb, hasAce = (14 \<in> set rs), maxGap = mx,
             minGap = mn, uniqueRanks = uniq\<rparr>)"

section \<open>Auxiliary notions for the proofs\<close>

text \<open>
  None of the following is part of the program. \<open>combs k xs\<close> lists the sublists of \<open>xs\<close>
  with \<open>k\<close> elements by structural recursion; \<^verbatim>\<open>getCombinations\<close> is shown to compute the
  same list.
\<close>

fun combs :: "nat \<Rightarrow> 'a list \<Rightarrow> 'a list list" where
  "combs 0 xs = [[]]"
| "combs (Suc k) [] = []"
| "combs (Suc k) (x # xs) = map ((#) x) (combs k xs) @ combs (Suc k) xs"

text \<open>
  \<open>digits ks\<close>: every element is a rank value. \<open>shaped R h\<close>: the hand value \<open>h\<close> has
  one of the nine forms that \<^verbatim>\<open>evaluateFiveCards\<close> builds on five cards, with the bounds that
  make its value determine its kickers; \<open>R\<close> is the set of rank values at hand.
\<close>

definition digits :: "int list \<Rightarrow> bool" where
  "digits ks = list_all (\<lambda>k. 2 \<le> k \<and> k \<le> 14) ks"

inductive shaped :: "int set \<Rightarrow> hand_value \<Rightarrow> bool" for R :: "int set" where
  straightFlush:
    "length S = 5 \<Longrightarrow> digits S \<Longrightarrow> set S \<subseteq> R \<Longrightarrow> checkStraight S \<Longrightarrow>
     shaped R \<lparr>rank = 8, value = mathMax S,
                description = (if nthNum S 0 = 14 then ''Royal Flush'' else ''Straight Flush''),
                kickers = Some S\<rparr>"
| quads:
    "0 \<le> a \<Longrightarrow> a \<le> 14 \<Longrightarrow> 0 \<le> b \<Longrightarrow> b \<le> 14 \<Longrightarrow>
     shaped R \<lparr>rank = 7, value = a * 1000 + b, description = ''Four of a Kind'',
                kickers = Some [a, b]\<rparr>"
| fullHouse:
    "0 \<le> a \<Longrightarrow> a \<le> 14 \<Longrightarrow> 0 \<le> b \<Longrightarrow> b \<le> 14 \<Longrightarrow>
     shaped R \<lparr>rank = 6, value = a * 1000 + b, description = ''Full House'',
                kickers = Some [a, b]\<rparr>"
| flush:
    "length S = 5 \<Longrightarrow> digits S \<Longrightarrow>
     shaped R \<lparr>rank = 5, value = reducePow 4 0 0 S, description = ''Flush'', kickers = Some S\<rparr>"
| straight:
    "length S = 5 \<Longrightarrow> digits S \<Longrightarrow> set S \<subseteq> R \<Longrightarrow> checkStraight S \<Longrightarrow>
     shaped R \<lparr>rank = 4, value = mathMax S, description = ''Straight'', kickers = Some S\<rparr>"
| threeOfAKind:
    "0 \<le> t \<Longrightarrow> t \<le> 14 \<Longrightarrow> length ks \<le> 2 \<Longrightarrow> digits ks \<Longrightarrow>
     shaped R \<lparr>rank = 3, value = t * 10000 + nthNum ks 0 * 100 + nthNum ks 1,
                description = ''Three of a Kind'', kickers = Some (t # ks)\<rparr>"
| twoPair:
    "length ps \<le> 2 \<Longrightarrow> digits ps \<Longrightarrow> 0 \<le> k \<Longrightarrow> k \<le> 14 \<Longrightarrow>
     shaped R \<lparr>rank = 2, value = nthNum ps 0 * 10000 + nthNum ps 1 * 100 + k,
                description = ''Two Pair'', kickers = Some (ps @ [k])\<rparr>"
| onePair:
    "0 \<le> p \<Longrightarrow> p \<le> 14 \<Longrightarrow> length ks \<le> 3 \<Longrightarrow> digits ks \<Longrightarrow>
     shaped R \<lparr>rank = 1, value = p * 1000000 + reducePow 2 0 0 ks,
                description = ''One Pair'', kickers = Some (p # ks)\<rparr>"
| highCard:
    "length S = 5 \<Longrightarrow> digits S \<Longrightarrow>
     shaped R \<lparr>rank = 0, value = reducePow 4 0 0 S, description = ''High Card'', kickers = Some S\<rparr>"

section \<open>Fewer than five cards\<close>

text \<open>
  C8. With fewer than five cards \<^verbatim>\<open>evaluateHand\<close> raises nothing and returns the degenerate
  hand value: rank 0, value 0, description High Card (and no kickers).
\<close>

theorem evaluateHand_short:
  "length cards < 5 \<Longrightarrow>
   evaluateHand cards = \<lparr>rank = 0, value = 0, description = ''High Card'', kickers = None\<rparr>"
  by (simp add: evaluateHand_def)

theorem evaluateHand_short_witness:
  "length [Card RK Diamonds, Card R7 Spades, Card R2 Clubs] < 5 \<and>
   evaluateHand [Card RK Diamonds, Card R7 Spades, Card R2 Clubs]
     = \<lparr>rank = 0, value = 0, description = ''High Card'', kickers = None\<rparr>"
  using evaluateHand_short [of "[Card RK Diamonds, Card R7 Spades, Card R2 Clubs]"] by simp

section \<open>Normalization\<close>

lemma foldl_add_sum: "foldl (+) a xs = a + sum_list (xs :: real list)"
  by (induction xs arbitrary: a) auto

lemma divided_sum:
  "sum_list (map (snd \<circ> (\<lambda>(action, w). (action, w / t))) s) = sum_list (map snd (s :: strategy)) / t"
  by (induction s) (auto simp: add_divide_distrib)

lemma sum_nonneg_weights:
  "\<forall>e \<in> set s. 0 \<le> snd e \<Longrightarrow> 0 \<le> sum_list (map snd (s :: strategy))"
  by (induction s) auto

lemma normalizeStrategy_sum:
  "foldl (+) 0 (map snd s) \<noteq> 0 \<Longrightarrow> foldl (+) 0 (map snd (normalizeStrategy s)) = 1"
  by (simp add: normalizeStrategy_def Let_def foldl_add_sum divided_sum)

lemma normalizeStrategyBasic_sum:
  "foldl (+) 0 (map snd s) \<noteq> 0 \<Longrightarrow> foldl (+) 0 (map snd (normalizeStrategyBasic s)) = 1"
  by (simp add: normalizeStrategyBasic_def Let_def foldl_add_sum divided_sum)

lemma normalizeStrategy_keys:
  "map fst (normalizeStrategy s) = map fst s" "map fst (normalizeStrategyBasic s) = map fst s"
  by (simp_all add: normalizeStrategy_def normalizeStrategyBasic_def Let_def case_prod_beta)

lemma normalizeStrategy_nonneg:
  assumes "\<forall>e \<in> set s. 0 \<le> snd e"
  shows "\<forall>e \<in> set (normalizeStrategy s). 0 \<le> snd e"
    and "\<forall>e \<in> set (normalizeStrategyBasic s). 0 \<le> snd e"
  using assms sum_nonneg_weights [OF assms]
  by (auto simp: normalizeStrategy_def normalizeStrategyBasic_def Let_def foldl_add_sum)

lemma normalizeStrategy_zero:
  "foldl (+) 0 (map snd s) = 0 \<Longrightarrow> normalizeStrategy s = s \<and> normalizeStrategyBasic s = s"
  by (simp add: normalizeStrategy_def normalizeStrategyBasic_def)

text \<open>
  C4. For both \<^verbatim>\<open>normalizeStrategy\<close> functions, in exact arithmetic: when the raw weights
  do not sum to 0 the result has the same labels and its weights sum to 1, and they are
  non-negative whenever the raw weights are (the tables of the source hold non-negative
  literals only); when the raw weights sum to 0 the table is returned as it is. No branch
  divides by zero and none raises.
\<close>

theorem normalizeStrategy_correct:
  "(foldl (+) 0 (map snd s) \<noteq> 0 \<longrightarrow>
      foldl (+) 0 (map snd (normalizeStrategy s)) = 1 \<and>
      foldl (+) 0 (map snd (normalizeStrategyBasic s)) = 1 \<and>
      map fst (normalizeStrategy s) = map fst s \<and>
      map fst (normalizeStrategyBasic s) = map fst s \<and>
      ((\<forall>e \<in> set s. 0 \<le> snd e) \<longrightarrow>
         (\<forall>e \<in> set (normalizeStrategy s). 0 \<le> snd e) \<and>
         (\<forall>e \<in> set (normalizeStrategyBasic s). 0 \<le> snd e))) \<and>
   (foldl (+) 0 (map snd s) = 0 \<longrightarrow>
      normalizeStrategy s = s \<and> normalizeStrategyBasic s = s)"
  using normalizeStrategy_sum [of s] normalizeStrategyBasic_sum [of s]
    normalizeStrategy_keys [of s] normalizeStrategy_nonneg [of s] normalizeStrategy_zero [of s]
  by blast

theorem normalizeStrategy_correct_witness:
  "foldl (+) 0 (map snd [(''fold'', 2), (''call'', 6 :: real)]) \<noteq> 0 \<and>
   list_all (\<lambda>e. 0 \<le> snd e) [(''fold'', 2), (''call'', 6 :: real)] \<and>
   foldl (+) 0 (map snd (normalizeStrategy [(''fold'', 2), (''call'', 6)])) = 1 \<and>
   foldl (+) 0 (map snd (normalizeStrategyBasic [(''fold'', 2), (''call'', 6)])) = 1 \<and>
   list_all (\<lambda>e. 0 \<le> snd e) (normalizeStrategy [(''fold'', 2), (''call'', 6)]) \<and>
   foldl (+) 0 (map snd [(''check'', 0), (''bet_0.5'', 0 :: real)]) = 0 \<and>
   normalizeStrategy [(''check'', 0), (''bet_0.5'', 0)] = [(''check'', 0), (''bet_0.5'', 0)]"
  using normalizeStrategy_correct [of "[(''fold'', 2), (''call'', 6)]"]
    normalizeStrategy_correct [of "[(''check'', 0), (''bet_0.5'', 0)]"]
  by (simp add: list_all_iff)

section \<open>The action grader\<close>

lemma sortedActions_Nil [simp]: "sortedActionsOf s = [] \<longleftrightarrow> s = []"
  by (metis sortedActionsOf_def length_sort length_0_conv)

lemma sortedActions_hd_in: "sortedActionsOf s = e # rest \<Longrightarrow> e \<in> set s"
  by (metis sortedActionsOf_def list.set_intros(1) set_sort)





lemma gradeBand_loss:
  "\<exists>x. snd (gradeBand (Num p) w) = Finite x \<and> 0 \<le> x"
proof -
  let ?x = "if p \<ge> w - 0.03 \<or> p \<ge> 0.25 then max 0 ((w - p) * 0.05)
            else if p \<ge> 0.15 then (w - p) * 0.15
            else if p \<ge> 0.08 then 0.3 + (w - p) * 0.2
            else if p \<ge> 0.03 then 0.6 + (w - p) * 0.3
            else 1.2 + (w - p) * 0.4"
  have "snd (gradeBand (Num p) w) = Finite ?x" by (simp add: gradeBand_def)
  moreover have "0 \<le> ?x" by (simp; linarith)
  ultimately show ?thesis by blast
qed

lemma evaluateAction_eq:
  "sortedActionsOf s = (oa, w) # rest \<Longrightarrow>
   evaluateAction a s =
     Inr \<lparr>category = fst (gradeBand (lookupFreq s a) w),
          evLoss = numeric (\<lambda>l. min l 2.5) (snd (gradeBand (lookupFreq s a) w)),
          playerFrequency = lookupFreq s a, optimalAction = oa,
          optimalFrequency = w, allFrequencies = s,
          top3Actions = Some (take 3 (sortedActionsOf s))\<rparr>"
  by (simp add: evaluateAction_def Let_def split: prod.splits)

lemma evaluateAction_Nil: "evaluateAction a [] = Inl TypeError"
  by (simp add: evaluateAction_def sortedActionsOf_def)

lemma sortedActions_Cons:
  assumes "s \<noteq> []"
  obtains oa w rest where "sortedActionsOf s = (oa, w) # rest"
proof (cases "sortedActionsOf s")
  case Nil
  with assms show ?thesis by simp
next
  case (Cons e rest)
  then show ?thesis using that by (cases e) auto
qed




lemma lookupFreq_number:
  assumes "a \<in> fst ` set s \<or> a \<notin> set objectPrototypeMembers"
  shows "\<exists>p. lookupFreq s a = Num p \<and> (p = 0 \<or> (a, p) \<in> set s)"
proof (cases "map_of s a")
  case None
  then have "a \<notin> fst ` set s" by (simp add: map_of_eq_None_iff)
  with assms None show ?thesis by (simp add: lookupFreq_def)
next
  case (Some w)
  then have "(a, w) \<in> set s" by (rule map_of_SomeD)
  with Some show ?thesis by (auto simp: lookupFreq_def)
qed









text \<open>
  C7, as the claim states it, fails: the grader reads \<^verbatim>\<open>gtoStrategy[playerAction]\<close> without
  checking that the label is an entry of the table. For the label \<open>constructor\<close> the read
  yields the function inherited from \<^verbatim>\<open>Object.prototype\<close>; every comparison of the ladder
  is false, the category is \<open>blunder\<close>, and the loss \<^verbatim>\<open>1.2 + (optimalFreq - playerFreq) * 0.4\<close>
  is NaN, which \<^verbatim>\<open>Math.min(evLoss, 2.5)\<close> returns as it is: not a scalar between 0 and 2.5.
\<close>

theorem evLoss_not_a_number:
  "evaluateAction ''constructor'' [(''check'', 0.98), (''bet_1.0'', 0.02)] =
     Inr \<lparr>category = ''blunder'', evLoss = NaN, playerFrequency = Inherited,
          optimalAction = ''check'', optimalFrequency = 0.98,
          allFrequencies = [(''check'', 0.98), (''bet_1.0'', 0.02)],
          top3Actions = Some [(''check'', 0.98), (''bet_1.0'', 0.02)]\<rparr>"
  by code_simp

text \<open>
  C7, amended. On every non-empty strategy and for every submitted label that is an entry
  of the table or is not the name of a member of \<^verbatim>\<open>Object.prototype\<close>, the grader returns a
  result whose \<open>evLoss\<close> is a number, at least 0 and at most 2.5, whatever the band. (On the
  empty strategy it throws, see \<open>evaluateAction_Nil\<close>, and there is no result.)
\<close>

theorem evLoss_bounds:
  assumes "s \<noteq> []" and "a \<in> fst ` set s \<or> a \<notin> set objectPrototypeMembers"
  shows "\<exists>r x. evaluateAction a s = Inr r \<and> evLoss r = Finite x \<and> 0 \<le> x \<and> x \<le> 2.5"
proof -
  from assms(1) obtain oa w rest where eq: "sortedActionsOf s = (oa, w) # rest"
    by (rule sortedActions_Cons)
  from lookupFreq_number [OF assms(2)] obtain p where p: "lookupFreq s a = Num p" by blast
  from gradeBand_loss [of p w] obtain x where
    x: "snd (gradeBand (Num p) w) = Finite x" "0 \<le> x" by blast
  have "evLoss (projr (evaluateAction a s)) = Finite (min x 2.5)"
    by (simp add: evaluateAction_eq [OF eq] p x)
  moreover have "0 \<le> min x 2.5 \<and> min x 2.5 \<le> 2.5" using x(2) by simp
  ultimately show ?thesis by (auto simp: evaluateAction_eq [OF eq])
qed

theorem evLoss_bounds_witness:
  "[(''check'', 0.98), (''bet_1.0'', 0.02 :: real)] \<noteq> [] \<and>
   ''bet_1.0'' \<in> fst ` set [(''check'', 0.98), (''bet_1.0'', 0.02 :: real)] \<and>
   (\<exists>r x. evaluateAction ''bet_1.0'' [(''check'', 0.98), (''bet_1.0'', 0.02)] = Inr r \<and>
        evLoss r = Finite x \<and> 0 \<le> x \<and> x \<le> 2.5) \<and>
   ''bet_0.5'' \<notin> set objectPrototypeMembers \<and>
   (\<exists>r x. evaluateAction ''bet_0.5'' [(''check'', 0.98), (''bet_1.0'', 0.02)] = Inr r \<and>
        evLoss r = Finite x \<and> 0 \<le> x \<and> x \<le> 2.5)"
proof -
  have ne: "[(''check'', 0.98), (''bet_1.0'', 0.02 :: real)] \<noteq> []" by simp
  have own: "''bet_1.0'' \<in> fst ` set [(''check'', 0.98), (''bet_1.0'', 0.02 :: real)]" by simp
  have other: "''bet_0.5'' \<notin> set objectPrototypeMembers" by (simp add: objectPrototypeMembers_def)
  from evLoss_bounds [OF ne, of "''bet_1.0''"] evLoss_bounds [OF ne, of "''bet_0.5''"] ne own other
  show ?thesis by blast
qed

text \<open>
  C10, as the claim states it, fails on two inputs. On the all-zero table
  \<^verbatim>\<open>{fold: 0, call: 0}\<close>, which normalization returns unchanged, the label \<open>constructor\<close> is
  absent from the table but is not looked up as 0: the read yields the inherited function
  and the action is graded \<open>blunder\<close> with \<open>evLoss\<close> NaN. And the table with no entry at all,
  which normalization returns unchanged too, is graded for no label: the grader throws.
\<close>

theorem all_zero_table_not_best:
  "map snd [(''fold'', 0), (''call'', 0 :: real)] = [0, 0] \<and>
   normalizeStrategy [(''fold'', 0), (''call'', 0)] = [(''fold'', 0), (''call'', 0)] \<and>
   map_of [(''fold'', 0), (''call'', 0 :: real)] ''constructor'' = None \<and>
   evaluateAction ''constructor'' [(''fold'', 0), (''call'', 0)] =
     Inr \<lparr>category = ''blunder'', evLoss = NaN, playerFrequency = Inherited,
          optimalAction = ''fold'', optimalFrequency = 0,
          allFrequencies = [(''fold'', 0), (''call'', 0)],
          top3Actions = Some [(''fold'', 0), (''call'', 0)]\<rparr> \<and>
   normalizeStrategy [] = [] \<and>
   evaluateAction ''fold'' [] = Inl TypeError"
  by code_simp

text \<open>
  C10, amended. On a non-empty strategy whose weights are all 0, a table that normalization
  returns unchanged, every submitted label that is an entry of the table or is not the name
  of a member of \<^verbatim>\<open>Object.prototype\<close> (so also a label absent from the table, whose weight is
  looked up as 0) has player frequency 0 against optimal frequency 0 and is graded \<open>best\<close>
  with \<open>evLoss = 0\<close>.
\<close>

theorem evaluateAction_all_zero:
  assumes "s \<noteq> []" and "\<forall>e \<in> set s. snd e = 0"
    and "a \<in> fst ` set s \<or> a \<notin> set objectPrototypeMembers"
  shows "normalizeStrategy s = s \<and>
         (\<exists>r. evaluateAction a s = Inr r \<and> category r = ''best'' \<and> evLoss r = Finite 0 \<and>
              playerFrequency r = Num 0 \<and> optimalFrequency r = 0)"
proof -
  from assms(1) obtain oa w rest where eq: "sortedActionsOf s = (oa, w) # rest"
    by (rule sortedActions_Cons)
  have "(oa, w) \<in> set s" using eq by (rule sortedActions_hd_in)
  with assms(2) have w: "w = 0" by auto
  from lookupFreq_number [OF assms(3)] obtain p where
    p: "lookupFreq s a = Num p" "p = 0 \<or> (a, p) \<in> set s" by blast
  have p0: "p = 0" using p(2) assms(2) by auto
  have "sum_list (map snd s) = 0" using assms(2) by (induction s) auto
  then have "normalizeStrategy s = s"
    using normalizeStrategy_zero [of s] by (simp add: foldl_add_sum)
  then show ?thesis by (simp add: evaluateAction_eq [OF eq] p(1) p0 w gradeBand_def)
qed

theorem evaluateAction_all_zero_witness:
  "[(''fold'', 0), (''call'', 0 :: real)] \<noteq> [] \<and>
   list_all (\<lambda>e. snd e = 0) [(''fold'', 0), (''call'', 0 :: real)] \<and>
   ''raise_0.67'' \<notin> set objectPrototypeMembers \<and>
   normalizeStrategy [(''fold'', 0), (''call'', 0)] = [(''fold'', 0), (''call'', 0)] \<and>
   (\<exists>r. evaluateAction ''raise_0.67'' [(''fold'', 0), (''call'', 0)] = Inr r \<and>
        category r = ''best'' \<and> evLoss r = Finite 0) \<and>
   (\<exists>r. evaluateAction ''call'' [(''fold'', 0), (''call'', 0)] = Inr r \<and>
        category r = ''best'' \<and> evLoss r = Finite 0)"
proof -
  have ne: "[(''fold'', 0), (''call'', 0 :: real)] \<noteq> []" by simp
  have z: "\<forall>e \<in> set [(''fold'', 0), (''call'', 0 :: real)]. snd e = 0" by simp
  have other: "''raise_0.67'' \<notin> set objectPrototypeMembers" by (simp add: objectPrototypeMembers_def)
  have own: "''call'' \<in> fst ` set [(''fold'', 0), (''call'', 0 :: real)]" by simp
  from evaluateAction_all_zero [OF ne z, of "''raise_0.67''"]
    evaluateAction_all_zero [OF ne z, of "''call''"] other own
  show ?thesis by (simp, blast)
qed

section \<open>The ace-low wheel\<close>

text \<open>
  C2. The wheel A\<open>\<spadesuit>\<close> 2\<open>\<heartsuit>\<close> 3\<open>\<diamondsuit>\<close> 4\<open>\<clubsuit>\<close> 5\<open>\<spadesuit>\<close> is classified as a Straight (rank 4), but
  its value is \<^verbatim>\<open>Math.max(...sortedRanks)\<close>, which is the ace, 14: the evaluator ranks it
  above the six-high straight 6\<open>\<spadesuit>\<close> 5\<open>\<spadesuit>\<close> 4\<open>\<clubsuit>\<close> 3\<open>\<diamondsuit>\<close> 2\<open>\<heartsuit>\<close> (value 6), where the claim
  wants it strictly below.
\<close>

theorem wheel_beats_six_high:
  "evaluateFiveCards [Card RA Spades, Card R2 Hearts, Card R3 Diamonds, Card R4 Clubs, Card R5 Spades]
     = \<lparr>rank = 4, value = 14, description = ''Straight'', kickers = Some [14, 5, 4, 3, 2]\<rparr> \<and>
   evaluateFiveCards [Card R6 Spades, Card R2 Hearts, Card R3 Diamonds, Card R4 Clubs, Card R5 Spades]
     = \<lparr>rank = 4, value = 6, description = ''Straight'', kickers = Some [6, 5, 4, 3, 2]\<rparr> \<and>
   beats (evaluateFiveCards [Card RA Spades, Card R2 Hearts, Card R3 Diamonds, Card R4 Clubs, Card R5 Spades])
         (evaluateFiveCards [Card R6 Spades, Card R2 Hearts, Card R3 Diamonds, Card R4 Clubs, Card R5 Spades])"
  by code_simp

text \<open>
  C1. The same value 14 makes the wheel and the ace-high straight A K Q J T compare equal
  (same rank, same value, neither beats the other), although their tiebreak sequences
  \<open>[14, 5, 4, 3, 2]\<close> and \<open>[14, 13, 12, 11, 10]\<close> differ: two hands compare equal without
  matching tiebreak sequences.
\<close>

theorem wheel_ties_broadway:
  "rank (evaluateFiveCards [Card RA Spades, Card R2 Hearts, Card R3 Diamonds, Card R4 Clubs, Card R5 Spades])
     = rank (evaluateFiveCards [Card RA Spades, Card RK Hearts, Card RQ Diamonds, Card RJ Clubs, Card RT Spades]) \<and>
   value (evaluateFiveCards [Card RA Spades, Card R2 Hearts, Card R3 Diamonds, Card R4 Clubs, Card R5 Spades])
     = value (evaluateFiveCards [Card RA Spades, Card RK Hearts, Card RQ Diamonds, Card RJ Clubs, Card RT Spades]) \<and>
   kickers (evaluateFiveCards [Card RA Spades, Card R2 Hearts, Card R3 Diamonds, Card R4 Clubs, Card R5 Spades])
     = Some [14, 5, 4, 3, 2] \<and>
   kickers (evaluateFiveCards [Card RA Spades, Card RK Hearts, Card RQ Diamonds, Card RJ Clubs, Card RT Spades])
     = Some [14, 13, 12, 11, 10] \<and>
   \<not> beats (evaluateFiveCards [Card RA Spades, Card R2 Hearts, Card R3 Diamonds, Card R4 Clubs, Card R5 Spades])
           (evaluateFiveCards [Card RA Spades, Card RK Hearts, Card RQ Diamonds, Card RJ Clubs, Card RT Spades]) \<and>
   \<not> beats (evaluateFiveCards [Card RA Spades, Card RK Hearts, Card RQ Diamonds, Card RJ Clubs, Card RT Spades])
           (evaluateFiveCards [Card RA Spades, Card R2 Hearts, Card R3 Diamonds, Card R4 Clubs, Card R5 Spades])"
  by code_simp

section \<open>Malformed input\<close>

lemma foldl_best_mem:
  "foldl (\<lambda>bestHand combo.
            let evaluation = evaluateFiveCards combo
            in if beats evaluation bestHand then evaluation else bestHand) b cs
     \<in> insert b (evaluateFiveCards ` set cs)"
proof (induction cs arbitrary: b)
  case Nil
  then show ?case by simp
next
  case (Cons c cs)
  show ?case using Cons.IH [of "if beats (evaluateFiveCards c) b then evaluateFiveCards c else b"]
    by (auto simp: Let_def)
qed

lemma getCombinations_all: "getCombinations arr (length arr) = [arr]"
  by (subst getCombinations.simps) simp

lemma evaluateHand_five:
  "length cards = 5 \<Longrightarrow>
   evaluateHand cards =
     (if beats (evaluateFiveCards cards)
           \<lparr>rank = 0, value = 0, description = ''High Card'', kickers = Some []\<rparr>
      then evaluateFiveCards cards
      else \<lparr>rank = 0, value = 0, description = ''High Card'', kickers = Some []\<rparr>)"
  using getCombinations_all [of cards] by (simp add: evaluateHand_def Let_def)

lemma pair_of_doubled_ace:
  "evaluateFiveCards [Card RA Spades, Card RA Spades, Card RK Hearts, Card RQ Diamonds, Card RJ Clubs]
     = \<lparr>rank = 1, value = 14131211, description = ''One Pair'', kickers = Some [14, 13, 12, 11]\<rparr>"
  by code_simp

text \<open>
  C9, as the claim states it, fails: nothing in \<^verbatim>\<open>evaluateHand\<close> or in the board analyzer
  validates the cards. Four cards give the degenerate value, five cards that hold the ace
  of spades twice are evaluated as a pair of aces, and a board of two cards gives the
  \<open>preflop\<close> result.
\<close>

theorem malformed_input_accepted:
  "length [Card RA Spades, Card RK Hearts, Card RQ Diamonds, Card RJ Clubs] = 4 \<and>
   evaluateHand [Card RA Spades, Card RK Hearts, Card RQ Diamonds, Card RJ Clubs]
     = \<lparr>rank = 0, value = 0, description = ''High Card'', kickers = None\<rparr> \<and>
   \<not> distinct [Card RA Spades, Card RA Spades, Card RK Hearts, Card RQ Diamonds, Card RJ Clubs] \<and>
   evaluateHand [Card RA Spades, Card RA Spades, Card RK Hearts, Card RQ Diamonds, Card RJ Clubs]
     = \<lparr>rank = 1, value = 14131211, description = ''One Pair'', kickers = Some [14, 13, 12, 11]\<rparr> \<and>
   analyzeAdvancedBoardTexture [Card RA Spades, Card RK Hearts] = Preflop"
proof -
  have "evaluateHand [Card RA Spades, Card RK Hearts, Card RQ Diamonds, Card RJ Clubs]
     = \<lparr>rank = 0, value = 0, description = ''High Card'', kickers = None\<rparr>"
    by (simp add: evaluateHand_def)
  moreover have "evaluateHand [Card RA Spades, Card RA Spades, Card RK Hearts, Card RQ Diamonds, Card RJ Clubs]
     = \<lparr>rank = 1, value = 14131211, description = ''One Pair'', kickers = Some [14, 13, 12, 11]\<rparr>"
    by (simp add: evaluateHand_five pair_of_doubled_ace beats_def)
  moreover have "analyzeAdvancedBoardTexture [Card RA Spades, Card RK Hearts] = Preflop"
    by (simp add: analyzeAdvancedBoardTexture_def)
  ultimately show ?thesis by simp
qed

text \<open>
  C9, amended: what \<^verbatim>\<open>evaluateHand\<close> and the board analyzer do with a wrong number of cards
  or with duplicate cards. With fewer than five cards \<^verbatim>\<open>evaluateHand\<close> returns the
  degenerate value, and with five cards or more, duplicates or not, it returns the initial
  best hand or the evaluation of one of the five-element combinations of the list as it was
  given; with fewer than three cards the board analyzer returns its \<open>preflop\<close> result.
  (The statement is about these two functions only. The grader does raise, on an empty
  strategy: \<open>evaluateAction_Nil\<close>.)
\<close>

theorem no_input_validation:
  "(length cards < 5 \<longrightarrow>
      evaluateHand cards = \<lparr>rank = 0, value = 0, description = ''High Card'', kickers = None\<rparr>) \<and>
   (5 \<le> length cards \<longrightarrow>
      evaluateHand cards \<in>
        insert \<lparr>rank = 0, value = 0, description = ''High Card'', kickers = Some []\<rparr>
          (evaluateFiveCards ` set (getCombinations cards 5))) \<and>
   (length board < 3 \<longrightarrow> analyzeAdvancedBoardTexture board = Preflop)"
  using foldl_best_mem [of "\<lparr>rank = 0, value = 0, description = ''High Card'', kickers = Some []\<rparr>"
      "getCombinations cards 5"]
  by (simp add: evaluateHand_def analyzeAdvancedBoardTexture_def)

theorem no_input_validation_witness:
  "length [Card RA Spades, Card RK Hearts] < 5 \<and>
   evaluateHand [Card RA Spades, Card RK Hearts]
     = \<lparr>rank = 0, value = 0, description = ''High Card'', kickers = None\<rparr> \<and>
   5 \<le> length [Card RA Spades, Card RA Spades, Card RK Hearts, Card RQ Diamonds, Card RJ Clubs] \<and>
   evaluateHand [Card RA Spades, Card RA Spades, Card RK Hearts, Card RQ Diamonds, Card RJ Clubs] \<in>
     insert \<lparr>rank = 0, value = 0, description = ''High Card'', kickers = Some []\<rparr>
       (evaluateFiveCards ` set (getCombinations
          [Card RA Spades, Card RA Spades, Card RK Hearts, Card RQ Diamonds, Card RJ Clubs] 5)) \<and>
   length [Card RA Spades, Card RK Hearts] < 3 \<and>
   analyzeAdvancedBoardTexture [Card RA Spades, Card RK Hearts] = Preflop"
  using no_input_validation [of "[Card RA Spades, Card RK Hearts]" "[Card RA Spades, Card RK Hearts]"]
    no_input_validation [of "[Card RA Spades, Card RA Spades, Card RK Hearts, Card RQ Diamonds, Card RJ Clubs]" "[]"]
  by simp

section \<open>The board texture\<close>

lemma bump_sum: "sum_list (map snd (bump r m)) = Suc (sum_list (map snd m))"
  by (induction r m rule: bump.induct) auto

lemma bump_pos: "list_all (\<lambda>e. 0 < snd e) m \<Longrightarrow> list_all (\<lambda>e. 0 < snd e) (bump r m)"
  by (induction r m rule: bump.induct) simp_all

lemma foldl_bump_sum:
  "sum_list (map snd (foldl (\<lambda>m r. bump r m) m rs)) = sum_list (map snd m) + length rs"
  by (induction rs arbitrary: m) (auto simp: bump_sum)

lemma foldl_bump_pos:
  "list_all (\<lambda>e. 0 < snd e) m \<Longrightarrow> list_all (\<lambda>e. 0 < snd e) (foldl (\<lambda>m r. bump r m) m rs)"
proof (induction rs arbitrary: m)
  case Nil
  then show ?case by simp
next
  case (Cons r rs)
  from Cons.prems have "list_all (\<lambda>e. 0 < snd e) (bump r m)" by (rule bump_pos)
  then have "list_all (\<lambda>e. 0 < snd e) (foldl (\<lambda>m r. bump r m) (bump r m) rs)" by (rule Cons.IH)
  then show ?case by simp
qed

lemma rankCountsOf_sum: "sum_list (map snd (rankCountsOf rs)) = length rs"
  by (simp add: rankCountsOf_def foldl_bump_sum)

lemma rankCountsOf_pos: "e \<in> set (rankCountsOf rs) \<Longrightarrow> 0 < snd e"
  using foldl_bump_pos [of "[]" rs] by (simp add: rankCountsOf_def list_all_iff)

lemma rankCountsOf_fold: "rankCountsOf rs = fold bump rs []"
  by (simp add: rankCountsOf_def foldl_conv_fold)

lemma bump_keys: "fst ` set (bump r m) = insert r (fst ` set m)"
  by (induction r m rule: bump.induct) auto

lemma bump_sorted: "sorted_wrt (<) (map fst m) \<Longrightarrow> sorted_wrt (<) (map fst (bump r m))"
proof (induction r m rule: bump.induct)
  case (1 r)
  then show ?case by simp
next
  case (2 r k c m)
  show ?case
  proof (cases "r = k \<or> r < k")
    case True
    with 2 show ?thesis by auto
  next
    case False
    then have "k < r" by simp
    moreover have "sorted_wrt (<) (map fst (bump r m))" using 2 False by simp
    moreover have "\<forall>x \<in> fst ` set (bump r m). k < x"
      using 2(2) \<open>k < r\<close> unfolding bump_keys by auto
    ultimately show ?thesis using False by simp
  qed
qed

lemma fold_bump_keys: "fst ` set (fold bump rs m) = set rs \<union> fst ` set m"
  by (induction rs arbitrary: m) (auto simp: bump_keys simp del: bump.simps)

lemma fold_bump_sorted:
  "sorted_wrt (<) (map fst m) \<Longrightarrow> sorted_wrt (<) (map fst (fold bump rs m))"
  by (induction rs arbitrary: m) (simp_all add: bump_sorted del: bump.simps)

lemma rankCountsOf_keys: "fst ` set (rankCountsOf rs) = set rs"
  by (simp add: rankCountsOf_fold fold_bump_keys)

lemma rankCountsOf_distinct: "distinct (map fst (rankCountsOf rs))"
proof -
  have "sorted_wrt (<) (map fst (rankCountsOf rs))"
    unfolding rankCountsOf_fold by (rule fold_bump_sorted) simp
  then show ?thesis by (simp add: strict_sorted_iff)
qed

lemma length_le_sum: "\<forall>c \<in> set cs. 0 < c \<Longrightarrow> length cs \<le> sum_list (cs :: nat list)"
  by (induction cs) auto

lemma length_lt_sum:
  "\<forall>c \<in> set cs. 0 < c \<Longrightarrow> \<exists>c \<in> set cs. 3 \<le> c \<Longrightarrow> length cs < sum_list (cs :: nat list)"
proof (induction cs)
  case Nil
  then show ?case by simp
next
  case (Cons c cs)
  have le: "length cs \<le> sum_list cs" using Cons.prems(1) by (simp add: length_le_sum)
  show ?case
  proof (cases "3 \<le> c")
    case True
    with le show ?thesis by simp
  next
    case False
    with Cons.prems have "\<exists>c \<in> set cs. 3 \<le> c" by auto
    with Cons.IH Cons.prems(1) have "length cs < sum_list cs" by simp
    with Cons.prems(1) show ?thesis by simp
  qed
qed

lemma trips_paired:
  assumes "list_ex (\<lambda>c. c \<ge> 3) (map snd (rankCountsOf rs))"
  shows "length (map fst (rankCountsOf rs)) < length rs"
proof -
  have "\<forall>c \<in> set (map snd (rankCountsOf rs)). 0 < c"
    using rankCountsOf_pos by auto
  moreover have "\<exists>c \<in> set (map snd (rankCountsOf rs)). 3 \<le> c"
    using assms by (simp add: list_ex_iff)
  ultimately have "length (map snd (rankCountsOf rs)) < sum_list (map snd (rankCountsOf rs))"
    by (rule length_lt_sum)
  then show ?thesis by (simp add: rankCountsOf_sum)
qed

lemma classifyBoard_paired:
  "t \<longrightarrow> p \<Longrightarrow> classifyBoard w p t =
     (if p then ''paired'' else if w \<ge> 0.7 then ''wet'' else if w \<le> 0.35 then ''dry'' else ''medium'')"
  by (auto simp: classifyBoard_def Let_def)

lemma texture_fields:
  assumes "3 \<le> length board"
  shows "\<exists>t. analyzeAdvancedBoardTexture board = Texture t \<and> 0 \<le> wetness t \<and> wetness t \<le> 1 \<and>
     paired t = (length (map fst (rankCountsOf (map (\<lambda>c. rankValues (card_rank c)) board))) < length board) \<and>
     trips t = list_ex (\<lambda>c. c \<ge> 3) (map snd (rankCountsOf (map (\<lambda>c. rankValues (card_rank c)) board))) \<and>
     type t = classifyBoard (wetness t) (paired t) (trips t)"
  using assms by (simp add: analyzeAdvancedBoardTexture_def Let_def split del: if_split)

lemma dryBoard:
  "analyzeAdvancedBoardTexture [Card RK Diamonds, Card R7 Spades, Card R2 Clubs] =
   Texture
    \<lparr>type = ''dry'', wetness = 0.22, ranks = [13, 7, 2], paired = False,
     trips = False, flushDraw = False, flushPossible = False,
     monochrome = False, twoTone = False, rainbow = True, connected = False,
     doubleConnected = False, straightPossible = False, highCards = 1,
     broadway = False, lowBoard = False, hasAce = False, maxGap = 6,
     minGap = 5, uniqueRanks = 3\<rparr>"
  by code_simp

lemma wetBoard:
  "analyzeAdvancedBoardTexture [Card RJ Spades, Card RT Spades, Card R8 Hearts] =
   Texture
    \<lparr>type = ''wet'', wetness = 0.8, ranks = [11, 10, 8], paired = False,
     trips = False, flushDraw = False, flushPossible = False,
     monochrome = False, twoTone = True, rainbow = False, connected = True,
     doubleConnected = True, straightPossible = True, highCards = 2,
     broadway = False, lowBoard = False, hasAce = False, maxGap = 2,
     minGap = 1, uniqueRanks = 3\<rparr>"
  by code_simp

lemma rankValues_inj: "inj rankValues"
  by (rule injI) (case_tac x; case_tac y; simp)

lemma unique_ranks_card: "length (map fst (rankCountsOf rs)) = card (set rs)"
  using distinct_card [OF rankCountsOf_distinct [of rs]] by (simp add: rankCountsOf_keys)

lemma paired_iff_repeated:
  "length (map fst (rankCountsOf (map (\<lambda>c. rankValues (card_rank c)) board))) < length board
   \<longleftrightarrow> \<not> distinct (map card_rank board)"
proof -
  let ?rs = "map (\<lambda>c. rankValues (card_rank c)) board"
  have "?rs = map rankValues (map card_rank board)" by simp
  then have d: "distinct ?rs \<longleftrightarrow> distinct (map card_rank board)"
    by (metis distinct_map rankValues_inj inj_on_subset subset_UNIV)
  have "card (set ?rs) < length ?rs \<longleftrightarrow> \<not> distinct ?rs"
    by (metis card_distinct distinct_card card_length le_neq_implies_less nat_neq_iff)
  then show ?thesis unfolding unique_ranks_card using d by simp
qed

text \<open>
  C6. For every board of at least three cards (so for three to five) the analyzer returns
  a texture whose wetness lies in \<open>[0, 1]\<close>. The board is reported as paired exactly when
  two of its cards have the same rank, and then its type is \<open>paired\<close>; otherwise the type
  is \<open>wet\<close> from 0.7 up, \<open>dry\<close> up to 0.35 and \<open>medium\<close> between. The board
  K\<open>\<diamondsuit>\<close> 7\<open>\<spadesuit>\<close> 2\<open>\<clubsuit>\<close> is \<open>dry\<close> and the board J\<open>\<spadesuit>\<close> T\<open>\<spadesuit>\<close> 8\<open>\<heartsuit>\<close> is \<open>wet\<close>.
\<close>

theorem boardTexture_wetness_and_type:
  assumes "3 \<le> length board"
  shows "(\<exists>t. analyzeAdvancedBoardTexture board = Texture t \<and> 0 \<le> wetness t \<and> wetness t \<le> 1 \<and>
            paired t = (\<not> distinct (map card_rank board)) \<and>
            type t = (if \<not> distinct (map card_rank board) then ''paired''
                      else if wetness t \<ge> 0.7 then ''wet''
                      else if wetness t \<le> 0.35 then ''dry'' else ''medium'')) \<and>
         (\<exists>t. analyzeAdvancedBoardTexture [Card RK Diamonds, Card R7 Spades, Card R2 Clubs] = Texture t \<and>
            type t = ''dry'') \<and>
         (\<exists>t. analyzeAdvancedBoardTexture [Card RJ Spades, Card RT Spades, Card R8 Hearts] = Texture t \<and>
            type t = ''wet'')"
proof -
  let ?rs = "map (\<lambda>c. rankValues (card_rank c)) board"
  from texture_fields [OF assms] obtain t where
    t: "analyzeAdvancedBoardTexture board = Texture t" "0 \<le> wetness t" "wetness t \<le> 1" and
    p: "paired t = (length (map fst (rankCountsOf ?rs)) < length board)" and
    tr: "trips t = list_ex (\<lambda>c. c \<ge> 3) (map snd (rankCountsOf ?rs))" and
    ty: "type t = classifyBoard (wetness t) (paired t) (trips t)"
    by blast
  have rep: "paired t = (\<not> distinct (map card_rank board))"
    unfolding p by (rule paired_iff_repeated)
  have "trips t \<longrightarrow> paired t"
    using trips_paired [of ?rs] by (simp add: p tr)
  then have "type t = (if paired t then ''paired'' else if wetness t \<ge> 0.7 then ''wet''
               else if wetness t \<le> 0.35 then ''dry'' else ''medium'')"
    unfolding ty by (rule classifyBoard_paired)
  then have "type t = (if \<not> distinct (map card_rank board) then ''paired''
               else if wetness t \<ge> 0.7 then ''wet''
               else if wetness t \<le> 0.35 then ''dry'' else ''medium'')"
    unfolding rep .
  with t rep have 1: "\<exists>t. analyzeAdvancedBoardTexture board = Texture t \<and> 0 \<le> wetness t \<and> wetness t \<le> 1 \<and>
            paired t = (\<not> distinct (map card_rank board)) \<and>
            type t = (if \<not> distinct (map card_rank board) then ''paired''
                      else if wetness t \<ge> 0.7 then ''wet''
                      else if wetness t \<le> 0.35 then ''dry'' else ''medium'')"
    by blast
  have 2: "\<exists>t. analyzeAdvancedBoardTexture [Card RK Diamonds, Card R7 Spades, Card R2 Clubs] = Texture t \<and>
            type t = ''dry''"
    by (simp add: dryBoard)
  have 3: "\<exists>t. analyzeAdvancedBoardTexture [Card RJ Spades, Card RT Spades, Card R8 Hearts] = Texture t \<and>
            type t = ''wet''"
    by (simp add: wetBoard)
  from 1 2 3 show ?thesis by blast
qed

theorem boardTexture_wetness_and_type_witness:
  "3 \<le> length [Card R7 Spades, Card R7 Hearts, Card R2 Diamonds] \<and>
   \<not> distinct (map card_rank [Card R7 Spades, Card R7 Hearts, Card R2 Diamonds]) \<and>
   (\<exists>t. analyzeAdvancedBoardTexture [Card R7 Spades, Card R7 Hearts, Card R2 Diamonds] = Texture t \<and>
        0 \<le> wetness t \<and> wetness t \<le> 1 \<and> paired t \<and> type t = ''paired'') \<and>
   3 \<le> length [Card RA Hearts, Card RQ Diamonds, Card RT Hearts] \<and>
   distinct (map card_rank [Card RA Hearts, Card RQ Diamonds, Card RT Hearts]) \<and>
   (\<exists>t. analyzeAdvancedBoardTexture [Card RA Hearts, Card RQ Diamonds, Card RT Hearts] = Texture t \<and>
        0 \<le> wetness t \<and> wetness t \<le> 1 \<and> \<not> paired t \<and> type t \<noteq> ''paired'')"
proof -
  let ?b = "[Card R7 Spades, Card R7 Hearts, Card R2 Diamonds]"
  let ?c = "[Card RA Hearts, Card RQ Diamonds, Card RT Hearts]"
  have h: "3 \<le> length ?b" by simp
  have k: "3 \<le> length ?c" by simp
  have nd: "\<not> distinct (map card_rank ?b)" by simp
  have d: "distinct (map card_rank ?c)" by simp
  from boardTexture_wetness_and_type [OF h] obtain t where
    t: "analyzeAdvancedBoardTexture ?b = Texture t" "0 \<le> wetness t" "wetness t \<le> 1"
       "paired t = (\<not> distinct (map card_rank ?b))"
       "type t = (if \<not> distinct (map card_rank ?b) then ''paired''
                  else if wetness t \<ge> 0.7 then ''wet''
                  else if wetness t \<le> 0.35 then ''dry'' else ''medium'')"
    by blast
  have 1: "\<exists>t. analyzeAdvancedBoardTexture ?b = Texture t \<and>
        0 \<le> wetness t \<and> wetness t \<le> 1 \<and> paired t \<and> type t = ''paired''"
    using t nd by (intro exI [of _ t]) (simp only: if_True simp_thms)
  from boardTexture_wetness_and_type [OF k] obtain u where
    u: "analyzeAdvancedBoardTexture ?c = Texture u" "0 \<le> wetness u" "wetness u \<le> 1"
       "paired u = (\<not> distinct (map card_rank ?c))"
       "type u = (if \<not> distinct (map card_rank ?c) then ''paired''
                  else if wetness u \<ge> 0.7 then ''wet''
                  else if wetness u \<le> 0.35 then ''dry'' else ''medium'')"
    by blast
  have ty: "type u \<noteq> ''paired''"
    using u(5) d by (simp only: simp_thms if_False split: if_splits) simp_all
  have 2: "\<exists>t. analyzeAdvancedBoardTexture ?c = Texture t \<and>
        0 \<le> wetness t \<and> wetness t \<le> 1 \<and> \<not> paired t \<and> type t \<noteq> ''paired''"
    using u(1-4) d ty by (intro exI [of _ u]) (simp only: simp_thms)
  from h nd 1 k d 2 show ?thesis by blast
qed

section \<open>Independence of the input order\<close>

lemma sorted_desc_sortDesc: "sorted_wrt (\<ge>) (sortDesc (xs :: nat list))"
  by (simp add: sortDesc_def sorted_wrt_rev)

lemma partition5:
  fixes C :: "nat list"
  assumes "sorted_wrt (\<ge>) C" "\<forall>c \<in> set C. 0 < c" "sum_list C = 5"
  shows "C \<in> {[5], [4, 1], [3, 2], [3, 1, 1], [2, 2, 1], [2, 1, 1, 1], [1, 1, 1, 1, 1]}"
proof -
  have "length C \<le> 5" using length_le_sum [OF assms(2)] assms(3) by simp
  then consider "C = []" | a where "C = [a]" | a b where "C = [a, b]" | a b c where "C = [a, b, c]"
    | a b c d where "C = [a, b, c, d]" | a b c d e where "C = [a, b, c, d, e]"
    by (cases C; cases "tl C"; cases "tl (tl C)"; cases "tl (tl (tl C))"; cases "tl (tl (tl (tl C)))";
        cases "tl (tl (tl (tl (tl C))))") auto
  then show ?thesis
  proof cases
    case 1 with assms(3) show ?thesis by simp
  next
    case 2 with assms show ?thesis by simp
  next
    case 3 with assms show ?thesis by (simp; arith)
  next
    case 4 with assms show ?thesis by (simp; arith)
  next
    case 5 with assms show ?thesis by (simp; arith)
  next
    case 6 with assms show ?thesis by (simp; arith)
  qed
qed

text \<open>The rank counts of five cards, largest first: the seven partitions of 5.\<close>

lemma five_card_counts:
  assumes "length rs = 5"
  shows "sortDesc (map snd (rankCountsOf rs))
         \<in> {[5], [4, 1], [3, 2], [3, 1, 1], [2, 2, 1], [2, 1, 1, 1], [1, 1, 1, 1, 1]}"
proof (rule partition5)
  show "sorted_wrt (\<ge>) (sortDesc (map snd (rankCountsOf rs)))" by (rule sorted_desc_sortDesc)
  show "\<forall>c \<in> set (sortDesc (map snd (rankCountsOf rs))). 0 < c"
    using rankCountsOf_pos by (auto simp: sortDesc_def)
  have "sum_list (sortDesc (map snd (rankCountsOf rs))) = sum_list (map snd (rankCountsOf rs))"
    by (metis sortDesc_def mset_rev mset_sort sum_mset_sum_list)
  then show "sum_list (sortDesc (map snd (rankCountsOf rs))) = 5"
    by (simp add: rankCountsOf_sum assms)
qed

subsection \<open>Five cards: the evaluation depends on the multiset of cards only\<close>

lemma bump_commute: "bump a (bump b m) = bump b (bump a m)"
  by (induction m) auto

lemma rankCountsOf_mset:
  assumes "mset rs = mset rs'"
  shows "rankCountsOf rs = rankCountsOf rs'"
proof -
  have "fold bump rs = fold bump rs'"
    by (rule fold_multiset_equiv) (auto simp: bump_commute assms fun_eq_iff)
  then show ?thesis by (simp add: rankCountsOf_fold)
qed

lemma sortDesc_mset:
  assumes "mset xs = mset ys"
  shows "sortDesc xs = sortDesc ys"
proof -
  have "sort xs = sort ys"
    by (rule properties_for_sort) (simp_all add: assms)
  then show ?thesis by (simp add: sortDesc_def)
qed

lemma all_same_iff: "list_all (\<lambda>s. s = hd xs) xs \<longleftrightarrow> (\<forall>a \<in> set xs. \<forall>b \<in> set xs. a = b)"
proof (cases xs)
  case Nil
  then show ?thesis by simp
next
  case (Cons x xs')
  have "(\<forall>s \<in> set xs'. s = x) \<longleftrightarrow> (\<forall>a \<in> insert x (set xs'). \<forall>b \<in> insert x (set xs'). a = b)"
    by (metis insert_iff)
  with Cons show ?thesis by (simp add: list_all_iff)
qed

lemma isFlush_set:
  assumes "set xs = set ys"
  shows "list_all (\<lambda>s. s = hd xs) xs = list_all (\<lambda>s. s = hd ys) ys"
  by (simp add: all_same_iff assms)

lemma evaluateFiveCards_mset:
  assumes "mset c = mset c'"
  shows "evaluateFiveCards c = evaluateFiveCards c'"
proof -
  have r: "mset (map (\<lambda>c. rankValues (card_rank c)) c) = mset (map (\<lambda>c. rankValues (card_rank c)) c')"
    using assms by (metis mset_map)
  have s: "set (map card_suit c) = set (map card_suit c')"
    using assms by (metis mset_eq_setD set_map)
  show ?thesis
    unfolding evaluateFiveCards_def Let_def
    by (simp only: rankCountsOf_mset [OF r] sortDesc_mset [OF r] isFlush_set [OF s])
qed

subsection \<open>The combinations\<close>

lemma getCombinations_short: "length arr < k \<Longrightarrow> getCombinations arr k = []"
  by (subst getCombinations.simps) simp

lemma getCombinations_whole: "getCombinations arr (length arr) = [arr]"
  by (subst getCombinations.simps) simp

lemma getCombinations_one: "1 < length arr \<Longrightarrow> getCombinations arr 1 = map (\<lambda>item. [item]) arr"
  by (subst getCombinations.simps) simp

lemma getCombinations_loop:
  "2 \<le> k \<Longrightarrow> k < length arr \<Longrightarrow>
   getCombinations arr k =
     concat (map (\<lambda>i. map (\<lambda>tail. (arr ! i) # tail) (getCombinations (drop (i + 1) arr) (k - 1)))
                 [0 ..< length arr - k + 1])"
  by (subst getCombinations.simps) simp

lemma upt_shift: "[0 ..< Suc n] = 0 # map Suc [0 ..< n]"
  by (simp add: upt_conv_Cons map_Suc_upt del: upt_Suc)

lemma getCombinations_Cons:
  assumes "2 \<le> k" "k \<le> length xs"
  shows "getCombinations (x # xs) k = map ((#) x) (getCombinations xs (k - 1)) @ getCombinations xs k"
proof -
  have len: "length (x # xs) - k + 1 = Suc (length xs - k + 1)"
    using assms by simp
  have "getCombinations (x # xs) k =
      concat (map (\<lambda>i. map (\<lambda>tail. ((x # xs) ! i) # tail)
                          (getCombinations (drop (i + 1) (x # xs)) (k - 1)))
                  [0 ..< Suc (length xs - k + 1)])"
    using assms getCombinations_loop [of k "x # xs"] by (simp only: len) simp
  also have "\<dots> =
      map ((#) x) (getCombinations xs (k - 1)) @
      concat (map (\<lambda>i. map (\<lambda>tail. (xs ! i) # tail) (getCombinations (drop (i + 1) xs) (k - 1)))
                  [0 ..< length xs - k + 1])"
    by (subst upt_shift) (simp add: comp_def del: upt_Suc)
  finally have "getCombinations (x # xs) k =
      map ((#) x) (getCombinations xs (k - 1)) @
      concat (map (\<lambda>i. map (\<lambda>tail. (xs ! i) # tail) (getCombinations (drop (i + 1) xs) (k - 1)))
                  [0 ..< length xs - k + 1])" .
  moreover have "concat (map (\<lambda>i. map (\<lambda>tail. (xs ! i) # tail) (getCombinations (drop (i + 1) xs) (k - 1)))
                  [0 ..< length xs - k + 1]) = getCombinations xs k"
  proof (cases "k = length xs")
    case True
    then obtain y ys where xs: "xs = y # ys" using assms by (cases xs) auto
    have "getCombinations ys (length ys) = [ys]" by (rule getCombinations_whole)
    moreover have "getCombinations (y # ys) (Suc (length ys)) = [y # ys]"
      using getCombinations_whole [of "y # ys"] by simp
    ultimately show ?thesis using True xs by simp
  next
    case False
    with assms have "k < length xs" by simp
    with assms(1) show ?thesis by (simp add: getCombinations_loop)
  qed
  ultimately show ?thesis by simp
qed

lemma combs_short: "length xs < k \<Longrightarrow> combs k xs = []"
  by (induction k xs rule: combs.induct) auto

lemma combs_whole: "combs (length xs) xs = [xs]"
  by (induction xs) (auto simp: combs_short)

lemma combs_one: "combs (Suc 0) xs = map (\<lambda>item. [item]) xs"
  by (induction xs) auto

lemma getCombinations_combs: "1 \<le> k \<Longrightarrow> getCombinations xs k = combs k xs"
proof (induction xs arbitrary: k)
  case Nil
  then show ?case by (cases k) (simp_all add: getCombinations_short)
next
  case (Cons x xs)
  consider "length (x # xs) < k" | "k = length (x # xs)" | "k = 1" "1 < length (x # xs)"
    | "2 \<le> k" "k \<le> length xs"
    using Cons.prems by fastforce
  then show ?case
  proof cases
    case 1
    then show ?thesis by (simp add: getCombinations_short combs_short)
  next
    case 2
    then show ?thesis using getCombinations_whole [of "x # xs"] combs_whole [of "x # xs"] by simp
  next
    case 3
    then show ?thesis using getCombinations_one [of "x # xs"] combs_one [of "x # xs"] by simp
  next
    case 4
    then obtain j where k: "k = Suc j" "1 \<le> j" by (cases k) auto
    have "getCombinations (x # xs) k = map ((#) x) (getCombinations xs (k - 1)) @ getCombinations xs k"
      using 4 by (rule getCombinations_Cons)
    also have "\<dots> = map ((#) x) (combs j xs) @ combs (Suc j) xs"
      using k Cons.IH [of j] Cons.IH [of "Suc j"] by simp
    finally show ?thesis using k by simp
  qed
qed

lemma combs_msets: "mset ` set (combs k xs) = {M. M \<subseteq># mset xs \<and> size M = k}"
proof (induction k xs rule: combs.induct)
  case (1 xs)
  then show ?case by auto
next
  case (2 k)
  then show ?case by auto
next
  case (3 k x xs)
  have "mset ` set (combs (Suc k) (x # xs)) =
        add_mset x ` {M. M \<subseteq># mset xs \<and> size M = k} \<union> {M. M \<subseteq># mset xs \<and> size M = Suc k}"
    using 3 by (simp add: image_Un image_image) (metis (no_types, lifting) image_cong mset.simps(2) image_image)
  also have "\<dots> = {M. M \<subseteq># mset (x # xs) \<and> size M = Suc k}"
  proof (intro set_eqI iffI)
    fix M
    assume "M \<in> add_mset x ` {M. M \<subseteq># mset xs \<and> size M = k} \<union> {M. M \<subseteq># mset xs \<and> size M = Suc k}"
    then show "M \<in> {M. M \<subseteq># mset (x # xs) \<and> size M = Suc k}"
      by (auto intro: subset_mset.order_trans)
  next
    fix M
    assume "M \<in> {M. M \<subseteq># mset (x # xs) \<and> size M = Suc k}"
    then have sub: "M \<subseteq># add_mset x (mset xs)" and sz: "size M = Suc k" by auto
    have d: "M - {#x#} \<subseteq># mset xs"
      using sub by (simp add: subset_eq_diff_conv)
    show "M \<in> add_mset x ` {M. M \<subseteq># mset xs \<and> size M = k} \<union> {M. M \<subseteq># mset xs \<and> size M = Suc k}"
    proof (cases "x \<in># M")
      case True
      then have "M = add_mset x (M - {#x#})" by simp
      moreover have "size (M - {#x#}) = k" using True sz by (simp add: size_Diff_singleton)
      ultimately show ?thesis using d by blast
    next
      case False
      then have "M - {#x#} = M" by simp
      with d sz show ?thesis by simp
    qed
  qed
  finally show ?case .
qed

lemma getCombinations_msets:
  "1 \<le> k \<Longrightarrow> mset ` set (getCombinations xs k) = {M. M \<subseteq># mset xs \<and> size M = k}"
  by (simp add: getCombinations_combs combs_msets)

subsection \<open>The value determines the kickers\<close>

lemma length5D: "length xs = 5 \<Longrightarrow> \<exists>a b c d e. xs = [a, b, c, d, e]"
  by (auto simp: length_Suc_conv eval_nat_numeral)

lemma length_le3D:
  "length xs \<le> 3 \<Longrightarrow>
   xs = [] \<or> (\<exists>a. xs = [a]) \<or> (\<exists>a b. xs = [a, b]) \<or> (\<exists>a b c. xs = [a, b, c])"
  by (cases xs; cases "tl xs"; cases "tl (tl xs)"; cases "tl (tl (tl xs))") auto

lemma length_le2D:
  "length xs \<le> 2 \<Longrightarrow> xs = [] \<or> (\<exists>a. xs = [a]) \<or> (\<exists>a b. xs = [a, b])"
  by (cases xs; cases "tl xs"; cases "tl (tl xs)") auto

lemma split_base:
  fixes x r x' r' B :: int
  assumes "x * B + r = x' * B + r'" "0 \<le> r" "r < B" "0 \<le> r'" "r' < B"
  shows "x = x'" and "r = r'"
proof -
  have B: "B \<noteq> 0" using assms(2,3) by auto
  have "(x * B + r) div B = x" using assms(2,3) B by (simp add: div_pos_pos_trivial)
  moreover have "(x' * B + r') div B = x'" using assms(4,5) B by (simp add: div_pos_pos_trivial)
  ultimately show "x = x'" using assms(1) by simp
  then show "r = r'" using assms(1) by simp
qed

lemma enc_two:
  fixes a b a' b' :: int
  assumes "a * 1000 + b = a' * 1000 + b'" "0 \<le> a" "a \<le> 14" "0 \<le> b" "b \<le> 14"
    "0 \<le> a'" "a' \<le> 14" "0 \<le> b'" "b' \<le> 14"
  shows "a = a' \<and> b = b'"
  using split_base [of a 1000 b a' b'] assms by simp

lemma reducePow5:
  "reducePow 4 0 0 [a, b, c, d, e] = a * 100000000 + (b * 1000000 + (c * 10000 + (d * 100 + e)))"
  by (simp add: eval_nat_numeral)

lemma reducePow3:
  "reducePow 2 0 0 [] = 0"
  "reducePow 2 0 0 [a] = a * 10000"
  "reducePow 2 0 0 [a, b] = a * 10000 + b * 100"
  "reducePow 2 0 0 [a, b, c] = a * 10000 + (b * 100 + c)"
  by (simp_all add: eval_nat_numeral)

lemma enc_five:
  assumes "reducePow 4 0 0 S = reducePow 4 0 0 S'" "length S = 5" "length S' = 5" "digits S" "digits S'"
  shows "S = S'"
proof -
  from length5D [OF assms(2)] obtain a b c d e where S: "S = [a, b, c, d, e]" by blast
  from length5D [OF assms(3)] obtain a' b' c' d' e' where S': "S' = [a', b', c', d', e']" by blast
  have bd: "2 \<le> a" "a \<le> 14" "2 \<le> b" "b \<le> 14" "2 \<le> c" "c \<le> 14" "2 \<le> d" "d \<le> 14" "2 \<le> e" "e \<le> 14"
    "2 \<le> a'" "a' \<le> 14" "2 \<le> b'" "b' \<le> 14" "2 \<le> c'" "c' \<le> 14" "2 \<le> d'" "d' \<le> 14" "2 \<le> e'" "e' \<le> 14"
    using assms(4,5) by (simp_all add: S S' digits_def)
  have eq: "a * 100000000 + (b * 1000000 + (c * 10000 + (d * 100 + e)))
          = a' * 100000000 + (b' * 1000000 + (c' * 10000 + (d' * 100 + e')))"
    using assms(1) unfolding S S' reducePow5 .
  have 1: "a = a'" "b * 1000000 + (c * 10000 + (d * 100 + e)) = b' * 1000000 + (c' * 10000 + (d' * 100 + e'))"
    using split_base [OF eq] bd by simp_all
  have 2: "b = b'" "c * 10000 + (d * 100 + e) = c' * 10000 + (d' * 100 + e')"
    using split_base [OF 1(2)] bd by simp_all
  have 3: "c = c'" "d * 100 + e = d' * 100 + e'"
    using split_base [OF 2(2)] bd by simp_all
  have 4: "d = d'" "e = e'"
    using split_base [OF 3(2)] bd by simp_all
  show ?thesis by (simp add: S S' 1 2 3 4)
qed

lemma nthNum_digit: "digits ks \<Longrightarrow> 0 \<le> nthNum ks i \<and> nthNum ks i \<le> 14"
  by (auto simp: nthNum_def digits_def list_all_length)

lemma pad2_inj:
  assumes "length ks \<le> 2" "length ks' \<le> 2" "digits ks" "digits ks'"
    "nthNum ks 0 = nthNum ks' 0" "nthNum ks 1 = nthNum ks' 1"
  shows "ks = ks'"
  using length_le2D [OF assms(1)] length_le2D [OF assms(2)] assms(3-6)
  by (auto simp: nthNum_def digits_def)

lemma pad3_inj:
  assumes "length ks \<le> 3" "length ks' \<le> 3" "digits ks" "digits ks'"
    "nthNum ks 0 = nthNum ks' 0" "nthNum ks 1 = nthNum ks' 1" "nthNum ks 2 = nthNum ks' 2"
  shows "ks = ks'"
  using length_le3D [OF assms(1)] length_le3D [OF assms(2)] assms(3-7)
  by (auto simp: nthNum_def digits_def)

lemma reducePow_pad3:
  assumes "length ks \<le> 3"
  shows "reducePow 2 0 0 ks = nthNum ks 0 * 10000 + (nthNum ks 1 * 100 + nthNum ks 2)"
  using length_le3D [OF assms] by (auto simp: nthNum_def reducePow3)

lemma enc_three:
  fixes x y z x' y' z' :: int
  assumes "x * 10000 + (y * 100 + z) = x' * 10000 + (y' * 100 + z')"
    "0 \<le> y" "y \<le> 14" "0 \<le> z" "z \<le> 14" "0 \<le> y'" "y' \<le> 14" "0 \<le> z'" "z' \<le> 14"
  shows "x = x' \<and> y = y' \<and> z = z'"
proof -
  have 1: "x = x'" "y * 100 + z = y' * 100 + z'"
    using split_base [OF assms(1)] assms(2-) by simp_all
  have 2: "y = y'" "z = z'"
    using split_base [OF 1(2)] assms(2-) by simp_all
  from 1 2 show ?thesis by simp
qed

lemma enc_trips:
  assumes "t * 10000 + nthNum ks 0 * 100 + nthNum ks 1 = t' * 10000 + nthNum ks' 0 * 100 + nthNum ks' 1"
    "length ks \<le> 2" "length ks' \<le> 2" "digits ks" "digits ks'"
  shows "t = t' \<and> ks = ks'"
proof -
  have "t * 10000 + (nthNum ks 0 * 100 + nthNum ks 1) = t' * 10000 + (nthNum ks' 0 * 100 + nthNum ks' 1)"
    using assms(1) by simp
  from enc_three [OF this] nthNum_digit [OF assms(4)] nthNum_digit [OF assms(5)]
  have "t = t' \<and> nthNum ks 0 = nthNum ks' 0 \<and> nthNum ks 1 = nthNum ks' 1" by blast
  with pad2_inj [OF assms(2,3,4,5)] show ?thesis by blast
qed

lemma enc_twoPair:
  assumes "nthNum ps 0 * 10000 + nthNum ps 1 * 100 + k = nthNum ps' 0 * 10000 + nthNum ps' 1 * 100 + k'"
    "length ps \<le> 2" "length ps' \<le> 2" "digits ps" "digits ps'" "0 \<le> k" "k \<le> 14" "0 \<le> k'" "k' \<le> 14"
  shows "ps = ps' \<and> k = k'"
proof -
  have "nthNum ps 0 * 10000 + (nthNum ps 1 * 100 + k) = nthNum ps' 0 * 10000 + (nthNum ps' 1 * 100 + k')"
    using assms(1) by simp
  from enc_three [OF this] nthNum_digit [OF assms(4)] nthNum_digit [OF assms(5)] assms(6-)
  have "nthNum ps 0 = nthNum ps' 0 \<and> nthNum ps 1 = nthNum ps' 1 \<and> k = k'" by blast
  with pad2_inj [OF assms(2,3,4,5)] show ?thesis by blast
qed

lemma enc_pair:
  assumes "p * 1000000 + reducePow 2 0 0 ks = p' * 1000000 + reducePow 2 0 0 ks'"
    "length ks \<le> 3" "length ks' \<le> 3" "digits ks" "digits ks'"
  shows "p = p' \<and> ks = ks'"
proof -
  let ?r = "nthNum ks 0 * 10000 + (nthNum ks 1 * 100 + nthNum ks 2)"
  let ?r' = "nthNum ks' 0 * 10000 + (nthNum ks' 1 * 100 + nthNum ks' 2)"
  have eq: "p * 1000000 + ?r = p' * 1000000 + ?r'"
    using assms(1) by (simp add: reducePow_pad3 assms(2,3))
  have b: "0 \<le> ?r" "?r < 1000000"
    using nthNum_digit [OF assms(4), of 0] nthNum_digit [OF assms(4), of 1]
      nthNum_digit [OF assms(4), of 2] by simp_all
  have b': "0 \<le> ?r'" "?r' < 1000000"
    using nthNum_digit [OF assms(5), of 0] nthNum_digit [OF assms(5), of 1]
      nthNum_digit [OF assms(5), of 2] by simp_all
  from split_base [OF eq b b'] have p: "p = p'" and r: "?r = ?r'" by simp_all
  from enc_three [OF r] nthNum_digit [OF assms(4)] nthNum_digit [OF assms(5)]
  have "nthNum ks 0 = nthNum ks' 0 \<and> nthNum ks 1 = nthNum ks' 1 \<and> nthNum ks 2 = nthNum ks' 2" by blast
  with pad3_inj [OF assms(2,3,4,5)] p show ?thesis by blast
qed

lemma straight5:
  "checkStraight [a, b, c, d, e] \<longleftrightarrow>
     (a - b = 1 \<and> b - c = 1 \<and> c - d = 1 \<and> d - e = 1) \<or> [a, b, c, d, e] = [14, 5, 4, 3, 2]"
  by (auto simp: checkStraight_def isWheel_def)

lemma enc_straight:
  assumes "mathMax S = mathMax S'" "length S = 5" "length S' = 5" "digits S" "digits S'"
    "checkStraight S" "checkStraight S'" "set S \<subseteq> R" "set S' \<subseteq> R" "finite R" "card R \<le> 7"
  shows "S = S'"
proof -
  from length5D [OF assms(2)] obtain a b c d e where S: "S = [a, b, c, d, e]" by blast
  from length5D [OF assms(3)] obtain a' b' c' d' e' where S': "S' = [a', b', c', d', e']" by blast
  have bd: "2 \<le> a" "2 \<le> b" "2 \<le> c" "2 \<le> d" "2 \<le> e" "2 \<le> a'" "2 \<le> b'" "2 \<le> c'" "2 \<le> d'" "2 \<le> e'"
    using assms(4,5) by (simp_all add: S S' digits_def)
  have nine: "\<not> {14, 13, 12, 11, 10, 5, 4, 3, 2 :: int} \<subseteq> R"
  proof
    assume "{14, 13, 12, 11, 10, 5, 4, 3, 2 :: int} \<subseteq> R"
    then have "card {14, 13, 12, 11, 10, 5, 4, 3, 2 :: int} \<le> card R"
      using assms(10) by (rule card_mono [rotated])
    with assms(11) show False by simp
  qed
  consider "a - b = 1 \<and> b - c = 1 \<and> c - d = 1 \<and> d - e = 1" | "S = [14, 5, 4, 3, 2]"
    using assms(6) by (auto simp: S straight5)
  then show ?thesis
  proof cases
    case 1
    consider "a' - b' = 1 \<and> b' - c' = 1 \<and> c' - d' = 1 \<and> d' - e' = 1" | "S' = [14, 5, 4, 3, 2]"
      using assms(7) by (auto simp: S' straight5)
    then show ?thesis
    proof cases
      case 1
      with \<open>a - b = 1 \<and> b - c = 1 \<and> c - d = 1 \<and> d - e = 1\<close> assms(1) bd
      show ?thesis by (simp add: S S' mathMax_def)
    next
      case 2
      with \<open>a - b = 1 \<and> b - c = 1 \<and> c - d = 1 \<and> d - e = 1\<close> assms(1) bd
      have "S = [14, 13, 12, 11, 10]" by (simp add: S S' mathMax_def)
      with 2 assms(8,9) nine show ?thesis by auto
    qed
  next
    case 2
    consider "a' - b' = 1 \<and> b' - c' = 1 \<and> c' - d' = 1 \<and> d' - e' = 1" | "S' = [14, 5, 4, 3, 2]"
      using assms(7) by (auto simp: S' straight5)
    then show ?thesis
    proof cases
      case 1
      with assms(1) bd 2 have "S' = [14, 13, 12, 11, 10]" by (simp add: S' mathMax_def)
      with 2 assms(8,9) nine show ?thesis by auto
    next
      case 2
      with \<open>S = [14, 5, 4, 3, 2]\<close> show ?thesis by simp
    qed
  qed
qed

lemma shaped_rank_le: "shaped R h \<Longrightarrow> rank h \<le> 8"
  by (erule shaped.cases) simp_all

lemma shaped_rank8:
  "shaped R h \<Longrightarrow> rank h = 8 \<Longrightarrow>
   \<exists>S. length S = 5 \<and> digits S \<and> set S \<subseteq> R \<and> checkStraight S \<and>
       h = \<lparr>rank = 8, value = mathMax S,
             description = (if nthNum S 0 = 14 then ''Royal Flush'' else ''Straight Flush''),
             kickers = Some S\<rparr>"
  by (erule shaped.cases) simp_all

lemma shaped_rank7:
  "shaped R h \<Longrightarrow> rank h = 7 \<Longrightarrow>
   \<exists>a b. 0 \<le> a \<and> a \<le> 14 \<and> 0 \<le> b \<and> b \<le> 14 \<and>
       h = \<lparr>rank = 7, value = a * 1000 + b, description = ''Four of a Kind'', kickers = Some [a, b]\<rparr>"
  by (erule shaped.cases) simp_all

lemma shaped_rank6:
  "shaped R h \<Longrightarrow> rank h = 6 \<Longrightarrow>
   \<exists>a b. 0 \<le> a \<and> a \<le> 14 \<and> 0 \<le> b \<and> b \<le> 14 \<and>
       h = \<lparr>rank = 6, value = a * 1000 + b, description = ''Full House'', kickers = Some [a, b]\<rparr>"
  by (erule shaped.cases) simp_all

lemma shaped_rank5:
  "shaped R h \<Longrightarrow> rank h = 5 \<Longrightarrow>
   \<exists>S. length S = 5 \<and> digits S \<and>
       h = \<lparr>rank = 5, value = reducePow 4 0 0 S, description = ''Flush'', kickers = Some S\<rparr>"
  by (erule shaped.cases) simp_all

lemma shaped_rank4:
  "shaped R h \<Longrightarrow> rank h = 4 \<Longrightarrow>
   \<exists>S. length S = 5 \<and> digits S \<and> set S \<subseteq> R \<and> checkStraight S \<and>
       h = \<lparr>rank = 4, value = mathMax S, description = ''Straight'', kickers = Some S\<rparr>"
  by (erule shaped.cases) simp_all

lemma shaped_rank3:
  "shaped R h \<Longrightarrow> rank h = 3 \<Longrightarrow>
   \<exists>t ks. 0 \<le> t \<and> t \<le> 14 \<and> length ks \<le> 2 \<and> digits ks \<and>
       h = \<lparr>rank = 3, value = t * 10000 + nthNum ks 0 * 100 + nthNum ks 1,
             description = ''Three of a Kind'', kickers = Some (t # ks)\<rparr>"
  by (erule shaped.cases) simp_all

lemma shaped_rank2:
  "shaped R h \<Longrightarrow> rank h = 2 \<Longrightarrow>
   \<exists>ps k. length ps \<le> 2 \<and> digits ps \<and> 0 \<le> k \<and> k \<le> 14 \<and>
       h = \<lparr>rank = 2, value = nthNum ps 0 * 10000 + nthNum ps 1 * 100 + k,
             description = ''Two Pair'', kickers = Some (ps @ [k])\<rparr>"
  by (erule shaped.cases) simp_all

lemma shaped_rank1:
  "shaped R h \<Longrightarrow> rank h = 1 \<Longrightarrow>
   \<exists>p ks. 0 \<le> p \<and> p \<le> 14 \<and> length ks \<le> 3 \<and> digits ks \<and>
       h = \<lparr>rank = 1, value = p * 1000000 + reducePow 2 0 0 ks,
             description = ''One Pair'', kickers = Some (p # ks)\<rparr>"
  by (erule shaped.cases) simp_all

lemma shaped_rank0:
  "shaped R h \<Longrightarrow> rank h = 0 \<Longrightarrow>
   \<exists>S. length S = 5 \<and> digits S \<and>
       h = \<lparr>rank = 0, value = reducePow 4 0 0 S, description = ''High Card'', kickers = Some S\<rparr>"
  by (erule shaped.cases) simp_all

lemma shaped_inj:
  assumes h: "shaped R h" and h': "shaped R h'"
    and rk: "rank h = rank h'" and vl: "value h = value h'"
    and R: "finite R" "card R \<le> 7"
  shows "h = h'"
proof -
  have "rank h \<le> 8" using h by (rule shaped_rank_le)
  then consider "rank h = 8" | "rank h = 7" | "rank h = 6" | "rank h = 5" | "rank h = 4"
    | "rank h = 3" | "rank h = 2" | "rank h = 1" | "rank h = 0"
    by linarith
  then show ?thesis
  proof cases
    case 1
    from shaped_rank8 [OF h 1] obtain S where S: "length S = 5" "digits S" "set S \<subseteq> R" "checkStraight S"
      "h = \<lparr>rank = 8, value = mathMax S,
             description = (if nthNum S 0 = 14 then ''Royal Flush'' else ''Straight Flush''),
             kickers = Some S\<rparr>" by blast
    from shaped_rank8 [OF h'] 1 rk obtain S' where S': "length S' = 5" "digits S'" "set S' \<subseteq> R" "checkStraight S'"
      "h' = \<lparr>rank = 8, value = mathMax S',
             description = (if nthNum S' 0 = 14 then ''Royal Flush'' else ''Straight Flush''),
             kickers = Some S'\<rparr>" by auto
    have "mathMax S = mathMax S'" using vl S(5) S'(5) by simp
    then have "S = S'" using S S' R by (intro enc_straight [of S S' R]) simp_all
    then show ?thesis using S(5) S'(5) by simp
  next
    case 2
    from shaped_rank7 [OF h 2] obtain a b where a: "0 \<le> a" "a \<le> 14" "0 \<le> b" "b \<le> 14"
      "h = \<lparr>rank = 7, value = a * 1000 + b, description = ''Four of a Kind'', kickers = Some [a, b]\<rparr>"
      by blast
    from shaped_rank7 [OF h'] 2 rk obtain a' b' where a': "0 \<le> a'" "a' \<le> 14" "0 \<le> b'" "b' \<le> 14"
      "h' = \<lparr>rank = 7, value = a' * 1000 + b', description = ''Four of a Kind'', kickers = Some [a', b']\<rparr>"
      by auto
    have "a * 1000 + b = a' * 1000 + b'" using vl a(5) a'(5) by simp
    from enc_two [OF this a(1-4) a'(1-4)] show ?thesis using a(5) a'(5) by simp
  next
    case 3
    from shaped_rank6 [OF h 3] obtain a b where a: "0 \<le> a" "a \<le> 14" "0 \<le> b" "b \<le> 14"
      "h = \<lparr>rank = 6, value = a * 1000 + b, description = ''Full House'', kickers = Some [a, b]\<rparr>"
      by blast
    from shaped_rank6 [OF h'] 3 rk obtain a' b' where a': "0 \<le> a'" "a' \<le> 14" "0 \<le> b'" "b' \<le> 14"
      "h' = \<lparr>rank = 6, value = a' * 1000 + b', description = ''Full House'', kickers = Some [a', b']\<rparr>"
      by auto
    have "a * 1000 + b = a' * 1000 + b'" using vl a(5) a'(5) by simp
    from enc_two [OF this a(1-4) a'(1-4)] show ?thesis using a(5) a'(5) by simp
  next
    case 4
    from shaped_rank5 [OF h 4] obtain S where S: "length S = 5" "digits S"
      "h = \<lparr>rank = 5, value = reducePow 4 0 0 S, description = ''Flush'', kickers = Some S\<rparr>" by blast
    from shaped_rank5 [OF h'] 4 rk obtain S' where S': "length S' = 5" "digits S'"
      "h' = \<lparr>rank = 5, value = reducePow 4 0 0 S', description = ''Flush'', kickers = Some S'\<rparr>" by auto
    have "reducePow 4 0 0 S = reducePow 4 0 0 S'" using vl S(3) S'(3) by simp
    from enc_five [OF this S(1) S'(1) S(2) S'(2)] show ?thesis using S(3) S'(3) by simp
  next
    case 5
    from shaped_rank4 [OF h 5] obtain S where S: "length S = 5" "digits S" "set S \<subseteq> R" "checkStraight S"
      "h = \<lparr>rank = 4, value = mathMax S, description = ''Straight'', kickers = Some S\<rparr>" by blast
    from shaped_rank4 [OF h'] 5 rk obtain S' where S': "length S' = 5" "digits S'" "set S' \<subseteq> R" "checkStraight S'"
      "h' = \<lparr>rank = 4, value = mathMax S', description = ''Straight'', kickers = Some S'\<rparr>" by auto
    have "mathMax S = mathMax S'" using vl S(5) S'(5) by simp
    then have "S = S'" using S S' R by (intro enc_straight [of S S' R]) simp_all
    then show ?thesis using S(5) S'(5) by simp
  next
    case 6
    from shaped_rank3 [OF h 6] obtain t ks where k: "0 \<le> t" "t \<le> 14" "length ks \<le> 2" "digits ks"
      "h = \<lparr>rank = 3, value = t * 10000 + nthNum ks 0 * 100 + nthNum ks 1,
             description = ''Three of a Kind'', kickers = Some (t # ks)\<rparr>" by blast
    from shaped_rank3 [OF h'] 6 rk obtain t' ks' where k': "0 \<le> t'" "t' \<le> 14" "length ks' \<le> 2" "digits ks'"
      "h' = \<lparr>rank = 3, value = t' * 10000 + nthNum ks' 0 * 100 + nthNum ks' 1,
             description = ''Three of a Kind'', kickers = Some (t' # ks')\<rparr>" by auto
    have "t * 10000 + nthNum ks 0 * 100 + nthNum ks 1 = t' * 10000 + nthNum ks' 0 * 100 + nthNum ks' 1"
      using vl k(5) k'(5) by simp
    from enc_trips [OF this k(3) k'(3) k(4) k'(4)] show ?thesis using k(5) k'(5) by simp
  next
    case 7
    from shaped_rank2 [OF h 7] obtain ps k where k: "length ps \<le> 2" "digits ps" "0 \<le> k" "k \<le> 14"
      "h = \<lparr>rank = 2, value = nthNum ps 0 * 10000 + nthNum ps 1 * 100 + k,
             description = ''Two Pair'', kickers = Some (ps @ [k])\<rparr>" by blast
    from shaped_rank2 [OF h'] 7 rk obtain ps' k' where k': "length ps' \<le> 2" "digits ps'" "0 \<le> k'" "k' \<le> 14"
      "h' = \<lparr>rank = 2, value = nthNum ps' 0 * 10000 + nthNum ps' 1 * 100 + k',
             description = ''Two Pair'', kickers = Some (ps' @ [k'])\<rparr>" by auto
    have "nthNum ps 0 * 10000 + nthNum ps 1 * 100 + k = nthNum ps' 0 * 10000 + nthNum ps' 1 * 100 + k'"
      using vl k(5) k'(5) by simp
    from enc_twoPair [OF this k(1) k'(1) k(2) k'(2) k(3,4) k'(3,4)] show ?thesis using k(5) k'(5) by simp
  next
    case 8
    from shaped_rank1 [OF h 8] obtain p ks where k: "0 \<le> p" "p \<le> 14" "length ks \<le> 3" "digits ks"
      "h = \<lparr>rank = 1, value = p * 1000000 + reducePow 2 0 0 ks,
             description = ''One Pair'', kickers = Some (p # ks)\<rparr>" by blast
    from shaped_rank1 [OF h'] 8 rk obtain p' ks' where k': "0 \<le> p'" "p' \<le> 14" "length ks' \<le> 3" "digits ks'"
      "h' = \<lparr>rank = 1, value = p' * 1000000 + reducePow 2 0 0 ks',
             description = ''One Pair'', kickers = Some (p' # ks')\<rparr>" by auto
    have "p * 1000000 + reducePow 2 0 0 ks = p' * 1000000 + reducePow 2 0 0 ks'"
      using vl k(5) k'(5) by simp
    from enc_pair [OF this k(3) k'(3) k(4) k'(4)] show ?thesis using k(5) k'(5) by simp
  next
    case 9
    from shaped_rank0 [OF h 9] obtain S where S: "length S = 5" "digits S"
      "h = \<lparr>rank = 0, value = reducePow 4 0 0 S, description = ''High Card'', kickers = Some S\<rparr>" by blast
    from shaped_rank0 [OF h'] 9 rk obtain S' where S': "length S' = 5" "digits S'"
      "h' = \<lparr>rank = 0, value = reducePow 4 0 0 S', description = ''High Card'', kickers = Some S'\<rparr>" by auto
    have "reducePow 4 0 0 S = reducePow 4 0 0 S'" using vl S(3) S'(3) by simp
    from enc_five [OF this S(1) S'(1) S(2) S'(2)] show ?thesis using S(3) S'(3) by simp
  qed
qed

lemma shaped_beats_init:
  assumes "shaped R h"
  shows "beats h \<lparr>rank = 0, value = 0, description = ''High Card'', kickers = Some []\<rparr>"
  using assms
proof cases
  case (highCard S)
  from length5D [OF highCard(2)] obtain a b c d e where S: "S = [a, b, c, d, e]" by blast
  have "0 < reducePow 4 0 0 S" using highCard(3) by (simp add: S reducePow5 digits_def)
  then show ?thesis by (simp add: highCard(1) beats_def)
qed (simp_all add: beats_def)

subsection \<open>Every evaluation of five cards has one of the nine forms\<close>

lemma rankValues_range: "2 \<le> rankValues r \<and> rankValues r \<le> 14"
  by (cases r) simp_all

lemma digits_ranks: "digits (map (\<lambda>c. rankValues (card_rank c)) c)"
  by (simp add: digits_def list_all_iff rankValues_range)

lemma set_sortDesc [simp]: "set (sortDesc xs) = set xs"
  by (simp add: sortDesc_def)

lemma length_sortDesc [simp]: "length (sortDesc xs) = length xs"
  by (simp add: sortDesc_def)

lemma digits_subset: "set ys \<subseteq> set xs \<Longrightarrow> digits xs \<Longrightarrow> digits ys"
  by (auto simp: digits_def list_all_iff)

lemma digits_sortDesc: "digits rs \<Longrightarrow> digits (sortDesc rs)"
  by (rule digits_subset [of _ rs]) simp_all

lemma digits_filter_unique:
  "digits rs \<Longrightarrow> digits (filter P (sortDesc (map fst (rankCountsOf rs))))"
  by (rule digits_subset [of _ rs]) (simp_all add: rankCountsOf_keys)

lemma digits_sorted_filter_unique:
  "digits rs \<Longrightarrow> digits (sortDesc (filter P (sortDesc (map fst (rankCountsOf rs)))))"
  by (rule digits_subset [of _ rs]) (simp_all add: rankCountsOf_keys)

lemma find_in_set: "List.find P xs = Some x \<Longrightarrow> x \<in> set xs"
  by (induction xs) (auto split: if_splits)

lemma findNum_range:
  assumes "digits rs"
  shows "0 \<le> findNum P (sortDesc (map fst (rankCountsOf rs)))"
    and "findNum P (sortDesc (map fst (rankCountsOf rs))) \<le> 14"
proof -
  let ?U = "sortDesc (map fst (rankCountsOf rs))"
  have "findNum P ?U = 0 \<or> findNum P ?U \<in> set ?U"
    by (auto simp: findNum_def split: option.splits dest: find_in_set)
  moreover have "set ?U = set rs" by (simp add: rankCountsOf_keys)
  ultimately have "findNum P ?U = 0 \<or> (2 \<le> findNum P ?U \<and> findNum P ?U \<le> 14)"
    using assms by (auto simp: digits_def list_all_iff)
  then show "0 \<le> findNum P ?U" and "findNum P ?U \<le> 14" by auto
qed

lemma count_bound:
  fixes m :: "(int \<times> nat) list"
  shows "n * length (filter (\<lambda>e. snd e = n) m) \<le> sum_list (map snd m)"
  by (induction m) auto

lemma count_bound_extra:
  fixes m :: "(int \<times> nat) list"
  assumes "e \<in> set m" "snd e \<noteq> n"
  shows "n * length (filter (\<lambda>e. snd e = n) m) + snd e \<le> sum_list (map snd m)"
  using assms
proof (induction m)
  case Nil
  then show ?case by simp
next
  case (Cons x m)
  show ?case
  proof (cases "e = x")
    case True
    with Cons.prems count_bound [of n m] show ?thesis by simp
  next
    case False
    with Cons have "n * length (filter (\<lambda>e. snd e = n) m) + snd e \<le> sum_list (map snd m)" by simp
    then show ?thesis by simp
  qed
qed

lemma filter_cnt:
  assumes "distinct (map fst m)"
  shows "filter (\<lambda>r. map_of m r = Some n) (map fst m) = map fst (filter (\<lambda>e. snd e = n) m)"
proof -
  have "filter (\<lambda>e. map_of m (fst e) = Some n) m = filter (\<lambda>e. snd e = n) m"
    using assms by (intro filter_cong) (auto dest: eq_key_imp_eq_value)
  then show ?thesis by (simp add: filter_map comp_def)
qed

lemma length_filter_sortDesc: "length (filter P (sortDesc xs)) = length (filter P xs)"
proof -
  have "mset (filter P (sort xs)) = mset (filter P xs)" by simp
  then have "length (filter P (sort xs)) = length (filter P xs)" by (rule mset_eq_length)
  then show ?thesis by (simp add: sortDesc_def rev_filter [symmetric])
qed

lemma length_filter_cnt:
  "length (filter (\<lambda>r. map_of (rankCountsOf rs) r = Some n) (sortDesc (map fst (rankCountsOf rs))))
     = length (filter (\<lambda>e. snd e = n) (rankCountsOf rs))"
  by (simp add: length_filter_sortDesc filter_cnt [OF rankCountsOf_distinct])

lemma top_count_mem:
  assumes "nthNum (sortDesc (map snd m)) 0 = n" "0 < n"
  shows "\<exists>e \<in> set m. snd e = n"
proof -
  let ?C = "sortDesc (map snd m)"
  have "0 < length ?C" using assms by (auto simp: nthNum_def split: if_splits)
  then have "?C ! 0 \<in> set ?C" by (rule nth_mem)
  moreover have "?C ! 0 = n" using assms \<open>0 < length ?C\<close> by (simp add: nthNum_def)
  ultimately have "n \<in> snd ` set m" by simp
  then show ?thesis by auto
qed

lemma singles_le:
  assumes "nthNum (sortDesc (map snd (rankCountsOf rs))) 0 = n" "1 < n"
  shows "length (filter (\<lambda>r. map_of (rankCountsOf rs) r = Some 1) (sortDesc (map fst (rankCountsOf rs)))) + n
         \<le> length rs"
proof -
  from top_count_mem [OF assms(1)] assms(2) obtain e where e: "e \<in> set (rankCountsOf rs)" "snd e = n"
    by auto
  then have "snd e \<noteq> 1" using assms(2) by simp
  from count_bound_extra [OF e(1) this] show ?thesis
    by (simp add: length_filter_cnt e(2) rankCountsOf_sum)
qed

lemma pairs_le:
  "2 * length (sortDesc (filter (\<lambda>r. map_of (rankCountsOf rs) r = Some 2) (sortDesc (map fst (rankCountsOf rs)))))
         \<le> length rs"
  using count_bound [of 2 "rankCountsOf rs"] by (simp add: length_filter_cnt rankCountsOf_sum)

lemma shaped_if:
  "(c \<Longrightarrow> shaped R a) \<Longrightarrow> (\<not> c \<Longrightarrow> shaped R b) \<Longrightarrow> shaped R (if c then a else b)"
  by simp

lemma evaluateFiveCards_shaped:
  assumes "length c = 5"
  shows "shaped (set (map (\<lambda>c. rankValues (card_rank c)) c)) (evaluateFiveCards c)"
proof -
  let ?rs = "map (\<lambda>c. rankValues (card_rank c)) c"
  have len: "length ?rs = 5" using assms by simp
  have d: "digits ?rs" by (rule digits_ranks)
  note facts = len d digits_sortDesc [OF d] digits_filter_unique [OF d]
    digits_sorted_filter_unique [OF d] findNum_range [OF d]
  show ?thesis
    unfolding evaluateFiveCards_def Let_def
  proof (intro shaped_if)
    assume "list_all (\<lambda>s. s = hd (map card_suit c)) (map card_suit c) \<and> checkStraight (sortDesc ?rs)"
    then have "checkStraight (sortDesc ?rs)" by simp
    then show "shaped (set ?rs)
        \<lparr>rank = 8, value = mathMax (sortDesc ?rs),
           description = (if nthNum (sortDesc ?rs) 0 = 14 then ''Royal Flush'' else ''Straight Flush''),
           kickers = Some (sortDesc ?rs)\<rparr>"
      by (intro shaped.straightFlush facts) (simp_all add: assms)
  next
    assume "nthNum (sortDesc (map snd (rankCountsOf ?rs))) 0 = 3"
    from singles_le [OF this] len
    have "length (filter (\<lambda>r. map_of (rankCountsOf ?rs) r = Some 1)
                   (sortDesc (map fst (rankCountsOf ?rs)))) \<le> 2" by simp
    then show "shaped (set ?rs)
        \<lparr>rank = 3,
           value = findNum (\<lambda>r. map_of (rankCountsOf ?rs) r = Some 3) (sortDesc (map fst (rankCountsOf ?rs))) * 10000 +
             nthNum (filter (\<lambda>r. map_of (rankCountsOf ?rs) r = Some 1) (sortDesc (map fst (rankCountsOf ?rs)))) 0 * 100 +
             nthNum (filter (\<lambda>r. map_of (rankCountsOf ?rs) r = Some 1) (sortDesc (map fst (rankCountsOf ?rs)))) 1,
           description = ''Three of a Kind'',
           kickers = Some (findNum (\<lambda>r. map_of (rankCountsOf ?rs) r = Some 3) (sortDesc (map fst (rankCountsOf ?rs))) #
                  filter (\<lambda>r. map_of (rankCountsOf ?rs) r = Some 1) (sortDesc (map fst (rankCountsOf ?rs))))\<rparr>"
      by (intro shaped.threeOfAKind facts)
  next
    assume "nthNum (sortDesc (map snd (rankCountsOf ?rs))) 0 = 2"
    from singles_le [OF this] len
    have "length (filter (\<lambda>r. map_of (rankCountsOf ?rs) r = Some 1)
                   (sortDesc (map fst (rankCountsOf ?rs)))) \<le> 3" by simp
    then show "shaped (set ?rs)
        \<lparr>rank = 1,
           value = findNum (\<lambda>r. map_of (rankCountsOf ?rs) r = Some 2) (sortDesc (map fst (rankCountsOf ?rs))) * 1000000 +
             reducePow 2 0 0 (filter (\<lambda>r. map_of (rankCountsOf ?rs) r = Some 1) (sortDesc (map fst (rankCountsOf ?rs)))),
           description = ''One Pair'',
           kickers = Some (findNum (\<lambda>r. map_of (rankCountsOf ?rs) r = Some 2) (sortDesc (map fst (rankCountsOf ?rs))) #
                  filter (\<lambda>r. map_of (rankCountsOf ?rs) r = Some 1) (sortDesc (map fst (rankCountsOf ?rs))))\<rparr>"
      by (intro shaped.onePair facts)
  next
    have "length (sortDesc (filter (\<lambda>r. map_of (rankCountsOf ?rs) r = Some 2)
                   (sortDesc (map fst (rankCountsOf ?rs))))) \<le> 2"
      using pairs_le [of ?rs] len by simp
    then show "shaped (set ?rs)
        \<lparr>rank = 2,
           value = nthNum (sortDesc (filter (\<lambda>r. map_of (rankCountsOf ?rs) r = Some 2) (sortDesc (map fst (rankCountsOf ?rs))))) 0 * 10000 +
             nthNum (sortDesc (filter (\<lambda>r. map_of (rankCountsOf ?rs) r = Some 2) (sortDesc (map fst (rankCountsOf ?rs))))) 1 * 100 +
             findNum (\<lambda>r. map_of (rankCountsOf ?rs) r = Some 1) (sortDesc (map fst (rankCountsOf ?rs))),
           description = ''Two Pair'',
           kickers = Some (sortDesc (filter (\<lambda>r. map_of (rankCountsOf ?rs) r = Some 2) (sortDesc (map fst (rankCountsOf ?rs)))) @
                  [findNum (\<lambda>r. map_of (rankCountsOf ?rs) r = Some 1) (sortDesc (map fst (rankCountsOf ?rs)))])\<rparr>"
      by (intro shaped.twoPair facts)
  qed (auto intro!: shaped.intros facts simp: assms)
qed

subsection \<open>The best hand\<close>

lemma shaped_mono: "shaped R h \<Longrightarrow> R \<subseteq> R' \<Longrightarrow> shaped R' h"
  by (induction rule: shaped.induct) (rule shaped.intros; auto)+

lemma beats_tie: "\<not> beats a b \<Longrightarrow> \<not> beats b a \<Longrightarrow> rank a = rank b \<and> value a = value b"
  by (auto simp: beats_def)

lemma beats_chain: "\<not> beats a b \<Longrightarrow> \<not> beats b c \<Longrightarrow> \<not> beats a c"
  by (auto simp: beats_def)

lemma beats_asym: "beats a b \<Longrightarrow> \<not> beats b a"
  by (auto simp: beats_def)

lemma beats_irrefl: "\<not> beats a a"
  by (simp add: beats_def)

lemma foldl_best_max:
  fixes b :: hand_value
  defines "step \<equiv> (\<lambda>bestHand combo.
            let evaluation = evaluateFiveCards combo
            in if beats evaluation bestHand then evaluation else bestHand)"
  shows "foldl step b cs \<in> insert b (evaluateFiveCards ` set cs) \<and>
         \<not> beats b (foldl step b cs) \<and>
         (\<forall>c \<in> set cs. \<not> beats (evaluateFiveCards c) (foldl step b cs))"
proof (induction cs arbitrary: b)
  case Nil
  then show ?case by (simp add: beats_irrefl)
next
  case (Cons c cs)
  let ?b' = "step b c"
  let ?r = "foldl step ?b' cs"
  note IH = Cons.IH [of ?b']
  have b': "?b' = (if beats (evaluateFiveCards c) b then evaluateFiveCards c else b)"
    by (simp add: step_def Let_def)
  have 1: "\<not> beats b ?b'" using b' by (auto simp: beats_irrefl dest: beats_asym)
  have 2: "\<not> beats (evaluateFiveCards c) ?b'" using b' by (auto simp: beats_irrefl)
  have "\<not> beats b ?r" using beats_chain [OF 1] IH by blast
  moreover have "\<not> beats (evaluateFiveCards c) ?r" using beats_chain [OF 2] IH by blast
  moreover have "?r \<in> insert b (evaluateFiveCards ` set (c # cs))" using IH b' by auto
  ultimately show ?case using IH by simp
qed

lemma combos_same_evaluations:
  assumes "mset cards' = mset cards"
  shows "evaluateFiveCards ` set (getCombinations cards' 5) = evaluateFiveCards ` set (getCombinations cards 5)"
proof -
  have sub: "evaluateFiveCards ` set (getCombinations xs 5) \<subseteq> evaluateFiveCards ` set (getCombinations ys 5)"
    if "mset xs = mset ys" for xs ys :: "card list"
  proof
    fix e assume "e \<in> evaluateFiveCards ` set (getCombinations xs 5)"
    then obtain c where c: "c \<in> set (getCombinations xs 5)" "e = evaluateFiveCards c" by auto
    have "mset c \<in> mset ` set (getCombinations xs 5)" using c(1) by simp
    then have "mset c \<in> mset ` set (getCombinations ys 5)"
      by (simp add: getCombinations_msets that)
    then obtain c' where c': "c' \<in> set (getCombinations ys 5)" "mset c' = mset c" by auto
    have "evaluateFiveCards c' = evaluateFiveCards c" using c'(2) by (rule evaluateFiveCards_mset)
    moreover have "evaluateFiveCards c' \<in> evaluateFiveCards ` set (getCombinations ys 5)"
      using c'(1) by (rule imageI)
    ultimately show "e \<in> evaluateFiveCards ` set (getCombinations ys 5)" using c(2) by simp
  qed
  from sub [OF assms] sub [OF assms [symmetric]] show ?thesis by blast
qed

lemma combos_shaped:
  assumes "c \<in> set (getCombinations cards 5)"
  shows "shaped ((\<lambda>c. rankValues (card_rank c)) ` set cards) (evaluateFiveCards c)"
proof -
  have "mset c \<in> mset ` set (getCombinations cards 5)" using assms by simp
  then have m: "mset c \<subseteq># mset cards" "size (mset c) = 5"
    by (simp_all add: getCombinations_msets)
  then have "length c = 5" by simp
  then have s: "shaped (set (map (\<lambda>c. rankValues (card_rank c)) c)) (evaluateFiveCards c)"
    by (rule evaluateFiveCards_shaped)
  have "set c \<subseteq> set cards" using set_mset_mono [OF m(1)] by simp
  then have "set (map (\<lambda>c. rankValues (card_rank c)) c) \<subseteq> (\<lambda>c. rankValues (card_rank c)) ` set cards"
    by auto
  with s show ?thesis by (rule shaped_mono)
qed

text \<open>
  C5. \<^verbatim>\<open>evaluateHand\<close> gives the same hand value, in all its fields, on any two lists of at
  most seven cards that are permutations of each other (so on every ordering of a set of
  five to seven cards).
\<close>

theorem evaluateHand_permutation:
  assumes "mset cards' = mset cards" and "length cards \<le> 7"
  shows "evaluateHand cards' = evaluateHand cards"
proof (cases "length cards < 5")
  case True
  moreover have "length cards' = length cards" using assms(1) by (rule mset_eq_length)
  ultimately show ?thesis by (simp add: evaluateHand_def)
next
  case False
  have len: "length cards' = length cards" using assms(1) by (rule mset_eq_length)
  define init where "init = \<lparr>rank = 0, value = 0, description = ''High Card'', kickers = Some []\<rparr>"
  define step where "step = (\<lambda>bestHand combo.
            let evaluation = evaluateFiveCards combo
            in if beats evaluation bestHand then evaluation else bestHand)"
  define E where "E = evaluateFiveCards ` set (getCombinations cards 5)"
  define R where "R = (\<lambda>c. rankValues (card_rank c)) ` set cards"
  define r where "r = foldl step init (getCombinations cards 5)"
  define r' where "r' = foldl step init (getCombinations cards' 5)"
  have E': "evaluateFiveCards ` set (getCombinations cards' 5) = E"
    unfolding E_def using assms(1) by (rule combos_same_evaluations)
  have sh: "shaped R e" if "e \<in> E" for e
    using that combos_shaped unfolding E_def R_def by auto
  have R: "finite R" "card R \<le> 7"
  proof -
    show "finite R" by (simp add: R_def)
    have "card R \<le> card (set cards)" unfolding R_def by (rule card_image_le) simp
    also have "\<dots> \<le> length cards" by (rule card_length)
    finally show "card R \<le> 7" using assms(2) by simp
  qed
  have r: "r \<in> insert init E" "\<forall>e \<in> E. \<not> beats e r"
    using foldl_best_max [of init "getCombinations cards 5"]
    unfolding r_def E_def step_def by blast+
  have "r' \<in> insert init (evaluateFiveCards ` set (getCombinations cards' 5))"
    "\<forall>e \<in> evaluateFiveCards ` set (getCombinations cards' 5). \<not> beats e r'"
    using foldl_best_max [of init "getCombinations cards' 5"]
    unfolding r'_def step_def by blast+
  then have r': "r' \<in> insert init E" "\<forall>e \<in> E. \<not> beats e r'"
    unfolding E' .
  have top: "beats e init" if "e \<in> E" for e
    using sh [OF that] unfolding init_def by (rule shaped_beats_init)
  have "r = r'"
  proof (cases "E = {}")
    case True
    with r(1) r'(1) show ?thesis by simp
  next
    case False
    then obtain e where e: "e \<in> E" by blast
    have "r \<noteq> init"
    proof
      assume "r = init"
      with r(2) e have "\<not> beats e init" by blast
      with top [OF e] show False by simp
    qed
    then have rE: "r \<in> E" using r(1) by simp
    have "r' \<noteq> init"
    proof
      assume "r' = init"
      with r'(2) e have "\<not> beats e init" by blast
      with top [OF e] show False by simp
    qed
    then have r'E: "r' \<in> E" using r'(1) by simp
    have "\<not> beats r r'" using r'(2) rE by blast
    moreover have "\<not> beats r' r" using r(2) r'E by blast
    ultimately have "rank r = rank r' \<and> value r = value r'" by (rule beats_tie)
    then have "rank r = rank r'" "value r = value r'" by simp_all
    with sh [OF rE] sh [OF r'E] show ?thesis using R by (rule shaped_inj)
  qed
  moreover have "evaluateHand cards = r"
    using False by (simp add: evaluateHand_def r_def step_def init_def)
  moreover have "evaluateHand cards' = r'"
    using False len by (simp add: evaluateHand_def r'_def step_def init_def)
  ultimately show ?thesis by simp
qed

theorem evaluateHand_permutation_witness:
  "mset [Card R4 Clubs, Card RK Diamonds, Card RA Spades, Card R9 Spades, Card RK Hearts,
         Card R7 Hearts, Card R2 Diamonds]
     = mset [Card RA Spades, Card RK Hearts, Card RK Diamonds, Card R9 Spades, Card R4 Clubs,
             Card R2 Diamonds, Card R7 Hearts] \<and>
   length [Card RA Spades, Card RK Hearts, Card RK Diamonds, Card R9 Spades, Card R4 Clubs,
           Card R2 Diamonds, Card R7 Hearts] \<le> 7 \<and>
   evaluateHand [Card R4 Clubs, Card RK Diamonds, Card RA Spades, Card R9 Spades, Card RK Hearts,
                 Card R7 Hearts, Card R2 Diamonds]
     = evaluateHand [Card RA Spades, Card RK Hearts, Card RK Diamonds, Card R9 Spades, Card R4 Clubs,
                     Card R2 Diamonds, Card R7 Hearts]"
proof -
  have m: "mset [Card R4 Clubs, Card RK Diamonds, Card RA Spades, Card R9 Spades, Card RK Hearts,
         Card R7 Hearts, Card R2 Diamonds]
     = mset [Card RA Spades, Card RK Hearts, Card RK Diamonds, Card R9 Spades, Card R4 Clubs,
             Card R2 Diamonds, Card R7 Hearts]"
    by (simp add: add_mset_commute)
  have l: "length [Card RA Spades, Card RK Hearts, Card RK Diamonds, Card R9 Spades, Card R4 Clubs,
           Card R2 Diamonds, Card R7 Hearts] \<le> 7"
    by simp
  from evaluateHand_permutation [OF m l] m l show ?thesis by blast
qed

end
